theory Spec2Isabelle
  imports Complex_Main
begin

section \<open>JavaScript numbers\<close>

text \<open>
  The program computes with JavaScript numbers. They are modelled as exact real numbers
  extended by the three non-finite values of JavaScript arithmetic, so that a division by
  zero yields what the program sees (\<open>Infinity\<close>, \<open>-Infinity\<close> or \<open>NaN\<close>) instead of a
  number. Rounding, overflow and the sign of zero are not modelled: every zero is \<open>+0\<close>.
\<close>

datatype jsnum = Fin real | PInf | NInf | NaN

fun inf_of_sign :: "real \<Rightarrow> jsnum" where
  "inf_of_sign s = (if 0 < s then PInf else if s < 0 then NInf else NaN)"

fun sign_of :: "jsnum \<Rightarrow> real" where
  "sign_of (Fin a) = sgn a"
| "sign_of PInf = 1"
| "sign_of NInf = - 1"
| "sign_of NaN = 0"

instantiation jsnum :: "{plus, minus, uminus, times, inverse, ord}"
begin

fun plus_jsnum :: "jsnum \<Rightarrow> jsnum \<Rightarrow> jsnum" where
  "Fin a + Fin b = Fin (a + b)"
| "NaN + b = NaN"
| "a + NaN = NaN"
| "PInf + NInf = NaN"
| "NInf + PInf = NaN"
| "PInf + b = PInf"
| "a + PInf = PInf"
| "NInf + b = NInf"
| "a + NInf = NInf"

fun uminus_jsnum :: "jsnum \<Rightarrow> jsnum" where
  "- Fin a = Fin (- a)"
| "- PInf = NInf"
| "- NInf = PInf"
| "- NaN = NaN"

definition minus_jsnum :: "jsnum \<Rightarrow> jsnum \<Rightarrow> jsnum" where
  "minus_jsnum a b = a + (- b)"

fun times_jsnum :: "jsnum \<Rightarrow> jsnum \<Rightarrow> jsnum" where
  "Fin a * Fin b = Fin (a * b)"
| "NaN * b = NaN"
| "a * NaN = NaN"
| "a * b = inf_of_sign (sign_of a * sign_of b)"

fun divide_jsnum :: "jsnum \<Rightarrow> jsnum \<Rightarrow> jsnum" where
  "divide_jsnum (Fin a) (Fin b) = (if b = 0 then inf_of_sign (sgn a) else Fin (a / b))"
| "divide_jsnum NaN b = NaN"
| "divide_jsnum a NaN = NaN"
| "divide_jsnum (Fin a) b = Fin 0"
| "divide_jsnum a (Fin b) = inf_of_sign (sign_of a * (if b < 0 then - 1 else 1))"
| "divide_jsnum a b = NaN"

definition inverse_jsnum :: "jsnum \<Rightarrow> jsnum" where
  "inverse_jsnum a = (case a of Fin r \<Rightarrow> if r = 0 then PInf else Fin (1 / r) | NaN \<Rightarrow> NaN | _ \<Rightarrow> Fin 0)"

fun less_jsnum :: "jsnum \<Rightarrow> jsnum \<Rightarrow> bool" where
  "Fin a < Fin b = (a < b)"
| "NaN < b = False"
| "a < NaN = False"
| "a < NInf = False"
| "PInf < b = False"
| "less_jsnum a b = True"

fun less_eq_jsnum :: "jsnum \<Rightarrow> jsnum \<Rightarrow> bool" where
  "Fin a \<le> Fin b = (a \<le> b)"
| "NaN \<le> b = False"
| "a \<le> NaN = False"
| "NInf \<le> b = True"
| "a \<le> PInf = True"
| "less_eq_jsnum a b = False"

instance ..

end

text \<open>The operator \<open>==\<close> on numbers: \<open>NaN\<close> equals nothing, itself included.\<close>

fun js_eq :: "jsnum \<Rightarrow> jsnum \<Rightarrow> bool" where
  "js_eq NaN b = False"
| "js_eq a NaN = False"
| "js_eq a b = (a = b)"

fun Math_abs :: "jsnum \<Rightarrow> jsnum" where
  "Math_abs (Fin a) = Fin \<bar>a\<bar>"
| "Math_abs PInf = PInf"
| "Math_abs NInf = PInf"
| "Math_abs NaN = NaN"

fun Math_sqrt :: "jsnum \<Rightarrow> jsnum" where
  "Math_sqrt (Fin a) = (if a < 0 then NaN else Fin (sqrt a))"
| "Math_sqrt PInf = PInf"
| "Math_sqrt NInf = NaN"
| "Math_sqrt NaN = NaN"

fun finite_num :: "jsnum \<Rightarrow> bool" where
  "finite_num (Fin a) = True"
| "finite_num a = False"

section \<open>Points (point.js)\<close>

text \<open>
  A \<open>Point\<close> object is never written after its construction. The mesh compares points
  with \<open>indexOf\<close> and \<open>!=\<close>, that is by object identity, so a point carries the identity
  of its object: one of the three points the constructor of the triangulation creates, a
  point created by the caller, or a point computed by the geometry functions.
\<close>

datatype ident = Bounding1 | Bounding2 | Bounding3 | Caller nat | Computed

record point =
  oid :: ident
  px :: jsnum
  py :: jsnum
  pz :: jsnum

definition Point :: "ident \<Rightarrow> jsnum \<Rightarrow> jsnum \<Rightarrow> jsnum \<Rightarrow> point" where
  "Point i a b c = \<lparr>oid = i, px = a, py = b, pz = c\<rparr>"

definition calculateDistanceSquarePlane :: "point \<Rightarrow> point \<Rightarrow> jsnum" where
  "calculateDistanceSquarePlane p1 p2 =
     (let x = px p2 - px p1;
          y = py p2 - py p1
      in x * x + y * y)"

section \<open>Triangles (triangle.js)\<close>

text \<open>
  A \<open>Triangle\<close> object holds its three forming points and references to its three
  neighbours (\<open>null\<close> is \<open>None\<close>). Triangle objects live in a store, a list indexed by
  the object's address; a reference to a triangle is its index. The field \<open>search\<close> is
  undefined until a search stamps the triangle.

  The fields \<open>center\<close>, \<open>circumcenter\<close> and \<open>radius\<close> of the source cache what
  \<open>getCenter\<close>, \<open>getCircumcenter\<close> and \<open>getRadius\<close> compute from \<open>points\<close>. The only
  writer of \<open>points\<close> after construction is \<open>setPoint\<close>, which clears the three
  caches, so a getter returns the value computed from the current points; the model
  computes it at each call and has no cache fields.
\<close>

record triangle =
  points :: "point list"
  neighbors :: "nat option list"
  search :: "nat option"

definition Triangle :: "point list \<Rightarrow> nat option list \<Rightarrow> triangle" where
  "Triangle pts nbs = \<lparr>points = pts, neighbors = nbs, search = None\<rparr>"

definition calculateCircumcentre :: "point list \<Rightarrow> point" where
  "calculateCircumcentre pts =
     (let x1 = px (pts ! 0); y1 = py (pts ! 0); z1 = pz (pts ! 0);
          x2 = px (pts ! 1); y2 = py (pts ! 1); z2 = pz (pts ! 1);
          x3 = px (pts ! 2); y3 = py (pts ! 2); z3 = pz (pts ! 2);
          u = (- ((y2-y1)*(y3*y3)+(-(y2*y2)+(y1*y1)-(x2*x2)+(x1*x1))*y3+y1*(y2*y2)
                  +(-(y1*y1)+(x3*x3)-(x1*x1))*y2+((x2*x2)-(x3*x3))*y1))
              / ((Fin 2*x2-Fin 2*x1)*y3+(Fin 2*x1-Fin 2*x3)*y2+(Fin 2*x3-Fin 2*x2)*y1);
          v = ((x2-x1)*(y3*y3)+(x1-x3)*(y2*y2)+(x3-x2)*(y1*y1)+(x2-x1)*(x3*x3)
                  +((x1*x1)-(x2*x2))*x3+x1*(x2*x2)-(x1*x1)*x2)
              / ((Fin 2*x2-Fin 2*x1)*y3+(Fin 2*x1-Fin 2*x3)*y2+(Fin 2*x3-Fin 2*x2)*y1)
      in if \<not> (js_eq (pz (pts ! 0)) (pz (pts ! 1)) \<and> js_eq (pz (pts ! 1)) (pz (pts ! 2))) then
           (let r = (- (-x1*y3+u*y3+x3*(y1-v))) / (x3*y2-x2*y3);
                s = (-x1*y2+u*y2+x2*(y1-v)) / (x3*y2-x2*y3);
                w = z1 + r * z2 + s * z3
            in Point Computed u v w)
         else
           (let w = pz (pts ! 0)
            in Point Computed u v w))"

definition getCircumcenter :: "triangle \<Rightarrow> point" where
  "getCircumcenter t = calculateCircumcentre (points t)"

definition getRadius :: "triangle \<Rightarrow> jsnum" where
  "getRadius t = calculateDistanceSquarePlane (getCircumcenter t) (points t ! 0)"

definition setPoint :: "triangle \<Rightarrow> nat \<Rightarrow> point \<Rightarrow> triangle" where
  "setPoint t index point = t\<lparr>points := (points t)[index := point]\<rparr>"

definition distanceToCircumcenter :: "triangle \<Rightarrow> point \<Rightarrow> jsnum" where
  "distanceToCircumcenter t point = calculateDistanceSquarePlane (getCircumcenter t) point"

text \<open>
  \<open>isPointInTriangle\<close> computes the two numbers \<open>u\<close> and \<open>v\<close> and tests them; the model
  names the pair so that theorems can speak about it.
\<close>

definition barycentric :: "triangle \<Rightarrow> point \<Rightarrow> jsnum \<times> jsnum" where
  "barycentric t point =
     (let x = px point; y = py point;
          x1 = px (points t ! 0); y1 = py (points t ! 0);
          x2 = px (points t ! 1); y2 = py (points t ! 1);
          x3 = px (points t ! 2); y3 = py (points t ! 2);
          u = (- (x*(y3-y1)+x1*(y-y3)+x3*(y1-y))) / (x1*(y3-y2)+x2*(y1-y3)+x3*(y2-y1));
          v = (x*(y2-y1)+x1*(y-y2)+x2*(y1-y)) / (x1*(y3-y2)+x2*(y1-y3)+x3*(y2-y1))
      in (u, v))"

definition isPointInTriangle :: "triangle \<Rightarrow> point \<Rightarrow> bool" where
  "isPointInTriangle t point =
     (let (u, v) = barycentric t point
      in (Fin 0 \<le> u) \<and> (Fin 0 \<le> v) \<and> (u + v \<le> Fin 1))"

definition containsPoint :: "triangle \<Rightarrow> point \<Rightarrow> bool" where
  "containsPoint t point = isPointInTriangle t point"

section \<open>The ordering of the search (triangulation.js)\<close>

text \<open>
  The loop of \<open>minimalDistance\<close> runs over the forming points after the first. Its body
  assigns to the loop's own variable \<open>distance\<close>; \<open>minimal\<close> is never assigned again.
\<close>

fun minimalDistance_loop :: "point \<Rightarrow> point list \<Rightarrow> jsnum \<Rightarrow> jsnum" where
  "minimalDistance_loop point [] minimal = minimal"
| "minimalDistance_loop point (q # qs) minimal =
     (let distance = calculateDistanceSquarePlane point q;
          distance = (if distance < minimal then minimal else distance)
      in minimalDistance_loop point qs minimal)"

definition minimalDistance :: "point \<Rightarrow> triangle \<Rightarrow> jsnum" where
  "minimalDistance point t =
     minimalDistance_loop point (tl (points t)) (calculateDistanceSquarePlane point (points t ! 0))"

definition compareTriangles :: "point \<Rightarrow> triangle \<Rightarrow> triangle \<Rightarrow> jsnum" where
  "compareTriangles point triangle1 triangle2 =
     minimalDistance point triangle1 - minimalDistance point triangle2"

section \<open>The priority queue (queue.js, the binary heap)\<close>

text \<open>
  The array \<open>elements\<close> holds \<open>null\<close> at index 0 and the heap from index 1 on. Reading an
  index past the end yields \<open>undefined\<close> (\<open>None\<close>, like \<open>null\<close>); writing at an index past
  the end extends the array, as JavaScript does.
\<close>

record 'a Queue =
  elements :: "'a option list"
  compare :: "'a \<Rightarrow> 'a \<Rightarrow> jsnum"

definition new_Queue :: "('a \<Rightarrow> 'a \<Rightarrow> jsnum) \<Rightarrow> 'a Queue" where
  "new_Queue cmp = \<lparr>elements = [None], compare = cmp\<rparr>"

definition js_read :: "'a option list \<Rightarrow> nat \<Rightarrow> 'a option" where
  "js_read xs i = (if i < length xs then xs ! i else None)"

definition js_write :: "'a option list \<Rightarrow> nat \<Rightarrow> 'a option \<Rightarrow> 'a option list" where
  "js_write xs i v =
     (if i < length xs then xs[i := v] else xs @ replicate (i - length xs) None @ [v])"

definition js_pop :: "'a option list \<Rightarrow> 'a option \<times> 'a option list" where
  "js_pop xs = (if xs = [] then (None, []) else (last xs, butlast xs))"

definition parentIndex :: "nat \<Rightarrow> nat" where
  "parentIndex index = index div 2"

definition leftChildIndex :: "nat \<Rightarrow> nat" where
  "leftChildIndex index = index * 2"

definition rightChildIndex :: "nat \<Rightarrow> nat" where
  "rightChildIndex index = index * 2 + 1"

text \<open>
  \<open>less\<close> calls the comparison function on two elements of the heap. The queue calls it
  with indices of the heap only; for an index that holds \<open>null\<close> or \<open>undefined\<close> the
  outcome depends on the comparison function (the one of the search would fail on
  \<open>null\<close>), and the model answers \<open>False\<close> there.
\<close>

definition less_q :: "'a Queue \<Rightarrow> nat \<Rightarrow> nat \<Rightarrow> bool" where
  "less_q q lhs rhs =
     (case (js_read (elements q) lhs, js_read (elements q) rhs) of
        (Some a, Some b) \<Rightarrow> compare q a b < Fin 0
      | _ \<Rightarrow> False)"

definition swap_q :: "'a Queue \<Rightarrow> nat \<Rightarrow> nat \<Rightarrow> 'a Queue" where
  "swap_q q lhs rhs =
     (let element = js_read (elements q) lhs;
          els = js_write (elements q) lhs (js_read (elements q) rhs);
          els = js_write els rhs element
      in q\<lparr>elements := els\<rparr>)"

function cascadeUp :: "'a Queue \<Rightarrow> nat \<Rightarrow> 'a Queue" where
  "cascadeUp q index =
     (if 1 < index then
        (let p = parentIndex index
         in if less_q q index p then cascadeUp (swap_q q index p) p else q)
      else q)"
  by pat_completeness auto
termination
  by (relation "measure (\<lambda>(q, index). index)") (auto simp: parentIndex_def)

partial_function (option) cascadeDown :: "'a Queue \<Rightarrow> nat \<Rightarrow> 'a Queue option" where
  "cascadeDown q index =
     (let sz = int (length (elements q)) - 1;
          left_child = leftChildIndex index;
          right_child = rightChildIndex index;
          min_child =
            (if int right_child \<le> sz then
               Some (if less_q q left_child right_child then left_child else right_child)
             else if int left_child \<le> sz then Some left_child
             else None)
      in case min_child of
           None \<Rightarrow> Some q
         | Some m \<Rightarrow>
             if \<not> less_q q index m then cascadeDown (swap_q q m index) m else Some q)"

definition insert_q :: "'a Queue \<Rightarrow> 'a \<Rightarrow> 'a Queue" where
  "insert_q q element =
     (let sz = length (elements q);
          q = q\<lparr>elements := elements q @ [Some element]\<rparr>
      in cascadeUp q sz)"

text \<open>
  \<open>pop\<close>: the statement \<open>this.elements[1] = this.elements.pop()\<close> first fixes the target
  (slot 1 of the array), then removes and reads the last element, then writes slot 1.
  The result is \<open>None\<close> when \<open>cascadeDown\<close> does not return.
\<close>

definition pop_q :: "'a Queue \<Rightarrow> ('a option \<times> 'a Queue) option" where
  "pop_q q =
     (let val = js_read (elements q) 1;
          (lst, els) = js_pop (elements q);
          q = q\<lparr>elements := js_write els 1 lst\<rparr>
      in case cascadeDown q 1 of
           None \<Rightarrow> None
         | Some q' \<Rightarrow> Some (val, q'))"

definition isEmpty :: "'a Queue \<Rightarrow> bool" where
  "isEmpty q = (length (elements q) \<le> 1)"

section \<open>The triangulation (triangulation.js)\<close>

text \<open>
  A call of the source either returns, or throws (a \<open>TypeError\<close> on reading a property
  of \<open>null\<close> or \<open>undefined\<close>), or runs forever. Functions with a loop that may run
  forever return an \<open>option\<close>, where \<open>None\<close> says that the call does not return.
\<close>

datatype 'a outcome = Returns 'a | Throws

text \<open>\<open>indexOf P xs\<close> is the first index of \<open>xs\<close> whose element satisfies \<open>P\<close>.\<close>

fun indexOf :: "('a \<Rightarrow> bool) \<Rightarrow> 'a list \<Rightarrow> nat option" where
  "indexOf P [] = None"
| "indexOf P (x # xs) = (if P x then Some 0 else map_option Suc (indexOf P xs))"

definition same_point :: "point \<Rightarrow> point \<Rightarrow> bool" where
  "same_point p q = (oid p = oid q)"

record delaunay =
  point1 :: point
  point2 :: point
  point3 :: point
  d_root :: nat
  d_search :: nat
  cells :: "triangle list"
  console :: "point list"

text \<open>
  The constructor. \<open>cells\<close> is the store of the triangle objects (the source reaches
  them through \<open>root\<close>, here \<open>d_root\<close>, and the neighbour references only); \<open>console\<close> collects the
  points that \<open>insert\<close> reports with \<open>console.log\<close>.
\<close>

definition Delaunay :: "jsnum \<Rightarrow> jsnum \<Rightarrow> jsnum \<Rightarrow> jsnum \<Rightarrow> delaunay" where
  "Delaunay min_x max_x min_y max_y =
     (let slack = Fin (3 / 2);
          center_x = (min_x + max_x) / Fin 2;
          center_y = (min_y + max_y) / Fin 2;
          rectangle_a = max_x - min_x;
          rectangle_b = max_y - min_y;
          radius = Math_sqrt (rectangle_a*rectangle_a + rectangle_b*rectangle_b) / Fin 2;
          side = Fin 6 * radius * slack / Math_sqrt (Fin 3);
          height = side * Math_sqrt (Fin 3) / Fin 2;
          p1 = Point Bounding1 (center_x - side / Fin 2) (center_y - radius) (Fin 0);
          p2 = Point Bounding2 center_x (center_y + height) (Fin 0);
          p3 = Point Bounding3 (center_x + side / Fin 2) (center_y - radius) (Fin 0)
      in \<lparr>point1 = p1, point2 = p2, point3 = p3, d_root = 0, d_search = 0,
          cells = [Triangle [p1, p2, p3] [None, None, None]], console = []\<rparr>)"

subsection \<open>Collecting the triangles\<close>

definition addTriangle ::
  "delaunay \<Rightarrow> nat \<Rightarrow> nat list \<Rightarrow> nat option \<Rightarrow> bool \<times> delaunay \<times> nat list" where
  "addTriangle st srch triangles tri =
     (case tri of
        None \<Rightarrow> (False, st, triangles)
      | Some t \<Rightarrow>
          if search (cells st ! t) \<noteq> Some srch then
            (let st = st\<lparr>cells := (cells st)[t := (cells st ! t)\<lparr>search := Some srch\<rparr>]\<rparr>
             in if indexOf (same_point (point1 st)) (points (cells st ! t)) = None \<and>
                   indexOf (same_point (point2 st)) (points (cells st ! t)) = None \<and>
                   indexOf (same_point (point3 st)) (points (cells st ! t)) = None
                then (True, st, triangles @ [t])
                else (False, st, triangles))
          else (False, st, triangles))"

text \<open>
  \<open>addRoot\<close> calls itself inside its loop over the neighbours. \<open>addRoot_neighbors\<close> is
  that loop from index \<open>i\<close> on; where the source calls \<open>addRoot\<close> on a neighbour, it
  performs the body of that call (\<open>addTriangle\<close>, then the neighbour's own loop).
\<close>

partial_function (option) addRoot_neighbors ::
  "delaunay \<Rightarrow> nat \<Rightarrow> nat list \<Rightarrow> nat \<Rightarrow> nat \<Rightarrow> (bool \<times> delaunay \<times> nat list) option" where
  "addRoot_neighbors st srch triangles r i =
     (if i < length (neighbors (cells st ! r)) then
        (case neighbors (cells st ! r) ! i of
           None \<Rightarrow> addRoot_neighbors st srch triangles r (i + 1)
         | Some neighbor \<Rightarrow>
             if search (cells st ! neighbor) \<noteq> Some srch then
               (let res = addTriangle st srch triangles (Some neighbor)
                in if fst res then Some (True, snd res)
                   else Option.bind
                          (addRoot_neighbors (fst (snd res)) srch (snd (snd res)) neighbor 0)
                          (\<lambda>sub. if fst sub then Some (True, snd sub)
                                 else addRoot_neighbors (fst (snd sub)) srch (snd (snd sub)) r (i + 1)))
             else addRoot_neighbors st srch triangles r (i + 1))
      else Some (False, st, triangles))"

definition addRoot ::
  "delaunay \<Rightarrow> nat \<Rightarrow> nat list \<Rightarrow> nat option \<Rightarrow> (bool \<times> delaunay \<times> nat list) option" where
  "addRoot st srch triangles rt =
     (let res = addTriangle st srch triangles rt
      in if fst res then Some (True, snd res)
         else case rt of
                None \<Rightarrow> Some (False, snd res)
              | Some r \<Rightarrow> addRoot_neighbors (fst (snd res)) srch (snd (snd res)) r 0)"

definition addNeighbors :: "delaunay \<Rightarrow> nat \<Rightarrow> nat list \<Rightarrow> nat \<Rightarrow> delaunay \<times> nat list" where
  "addNeighbors st srch triangles t =
     fold (\<lambda>nb (st, triangles). snd (addTriangle st srch triangles nb))
          (neighbors (cells st ! t)) (st, triangles)"

partial_function (option) collectTriangles_loop ::
  "delaunay \<Rightarrow> nat \<Rightarrow> nat list \<Rightarrow> nat \<Rightarrow> (nat list \<times> delaunay) option" where
  "collectTriangles_loop st srch triangles i =
     (if i < length triangles then
        (let res = addNeighbors st srch triangles (triangles ! i)
         in collectTriangles_loop (fst res) srch (snd res) (i + 1))
      else Some (triangles, st))"

definition collectTriangles :: "delaunay \<Rightarrow> nat \<Rightarrow> nat option \<Rightarrow> (nat list \<times> delaunay) option" where
  "collectTriangles st srch rt =
     (case addRoot st srch [] rt of
        None \<Rightarrow> None
      | Some (found, st', triangles) \<Rightarrow> collectTriangles_loop st' srch triangles 0)"

text \<open>
  \<open>getTriangles\<close> returns the references of the collected triangles, in the order of the
  returned array, and the state it leaves.
\<close>

definition getTriangles :: "delaunay \<Rightarrow> (nat list \<times> delaunay) option" where
  "getTriangles st =
     (let srch = d_search st;
          st = st\<lparr>d_search := d_search st + 1\<rparr>
      in collectTriangles st srch (Some (d_root st)))"

subsection \<open>Locating a point\<close>

text \<open>
  The queue of the search holds references to triangles; its comparison function reads
  their forming points, which the search never writes, from the store.
\<close>

definition stamp :: "triangle list \<Rightarrow> nat \<Rightarrow> nat \<Rightarrow> triangle list" where
  "stamp cs t srch = cs[t := (cs ! t)\<lparr>search := Some srch\<rparr>]"

definition expand :: "nat \<Rightarrow> nat option \<Rightarrow> triangle list \<times> nat Queue \<Rightarrow> triangle list \<times> nat Queue" where
  "expand srch neighbor s =
     (case neighbor of
        None \<Rightarrow> s
      | Some n \<Rightarrow>
          if search (fst s ! n) \<noteq> Some srch then (stamp (fst s) n srch, insert_q (snd s) n)
          else s)"

partial_function (option) findContainingTriangle_loop ::
  "nat \<Rightarrow> point \<Rightarrow> triangle list \<Rightarrow> nat Queue \<Rightarrow> (nat option \<times> triangle list) outcome option" where
  "findContainingTriangle_loop srch point cs queue =
     (if \<not> isEmpty queue then
        (case pop_q queue of
           None \<Rightarrow> None
         | Some (None, queue') \<Rightarrow> Some Throws
         | Some (Some t, queue') \<Rightarrow>
             if containsPoint (cs ! t) point then Some (Returns (Some t, cs))
             else
               (let s = fold (expand srch) (neighbors (cs ! t)) (cs, queue')
                in findContainingTriangle_loop srch point (fst s) (snd s)))
      else Some (Returns (None, cs)))"

definition findContainingTriangle ::
  "nat \<Rightarrow> nat option \<Rightarrow> point \<Rightarrow> triangle list \<Rightarrow> (nat option \<times> triangle list) outcome option" where
  "findContainingTriangle srch rt point cs =
     (case rt of
        None \<Rightarrow> Some (Returns (None, cs))
      | Some r \<Rightarrow>
          if search (cs ! r) = Some srch then Some (Returns (None, cs))
          else
            (let queue = new_Queue (\<lambda>x y. compareTriangles point (cs ! x) (cs ! y));
                 queue = insert_q queue r
             in findContainingTriangle_loop srch point cs queue))"

subsection \<open>Splitting and flipping\<close>

definition set_neighbor :: "triangle list \<Rightarrow> nat \<Rightarrow> nat \<Rightarrow> nat option \<Rightarrow> triangle list" where
  "set_neighbor cs t i n = cs[t := (cs ! t)\<lparr>neighbors := (neighbors (cs ! t))[i := n]\<rparr>]"

text \<open>
  \<open>replaceNeighbor\<close>: when \<open>oldNeighbor\<close> is not among the neighbours, \<open>indexOf\<close> yields
  \<open>-1\<close> and the assignment writes the property \<open>-1\<close> of the array, which changes none of
  its elements.
\<close>

definition replaceNeighbor :: "triangle list \<Rightarrow> nat option \<Rightarrow> nat \<Rightarrow> nat \<Rightarrow> triangle list" where
  "replaceNeighbor cs tri oldNeighbor newNeighbor =
     (case tri of
        None \<Rightarrow> cs
      | Some t \<Rightarrow>
          (case indexOf (\<lambda>n. n = Some oldNeighbor) (neighbors (cs ! t)) of
             None \<Rightarrow> cs
           | Some index \<Rightarrow> set_neighbor cs t index (Some newNeighbor)))"

definition findNotContainedPoint :: "point list \<Rightarrow> point list \<Rightarrow> nat option" where
  "findNotContainedPoint points1 points2 =
     indexOf (\<lambda>p. indexOf (same_point p) points2 = None) points1"

definition findRemainingIndex :: "point list \<Rightarrow> point \<Rightarrow> point \<Rightarrow> nat option" where
  "findRemainingIndex pts p1 p2 =
     indexOf (\<lambda>p. \<not> same_point p p1 \<and> \<not> same_point p p2) pts"

text \<open>
  \<open>flip\<close>. When one of the three index searches finds nothing, the source goes on with a
  \<open>null\<close> index and stores \<open>undefined\<close> as a forming point, which fails at the next read
  of its coordinates; the model has no such triangles and answers \<open>Throws\<close> at once.
\<close>

definition flip :: "triangle list \<Rightarrow> nat \<Rightarrow> nat \<Rightarrow> triangle list outcome" where
  "flip cs triangle1 triangle2 =
     (case (findNotContainedPoint (points (cs ! triangle1)) (points (cs ! triangle2)),
            findNotContainedPoint (points (cs ! triangle2)) (points (cs ! triangle1))) of
        (Some index1, Some index2) \<Rightarrow>
          (let swapIndex1 = (index1 + 1) mod 3
           in case findRemainingIndex (points (cs ! triangle2)) (points (cs ! triangle2) ! index2)
                     (points (cs ! triangle1) ! swapIndex1) of
                None \<Rightarrow> Throws
              | Some swapIndex2 \<Rightarrow>
                  (let cs = cs[triangle1 := setPoint (cs ! triangle1) swapIndex1 (points (cs ! triangle2) ! index2)];
                       cs = cs[triangle2 := setPoint (cs ! triangle2) swapIndex2 (points (cs ! triangle1) ! index1)];
                       oldNeighbors1 = neighbors (cs ! triangle1);
                       oldNeighbors2 = neighbors (cs ! triangle2);
                       index11 = (swapIndex1 + 2) mod 3;
                       index12 = swapIndex1;
                       index21 = (swapIndex2 + 2) mod 3;
                       index22 = swapIndex2;
                       cs = replaceNeighbor cs (neighbors (cs ! triangle1) ! index11) triangle1 triangle2;
                       cs = set_neighbor cs triangle1 index11 (Some triangle2);
                       cs = set_neighbor cs triangle1 index12 (oldNeighbors2 ! index2);
                       cs = replaceNeighbor cs (neighbors (cs ! triangle2) ! index21) triangle2 triangle1;
                       cs = set_neighbor cs triangle2 index21 (Some triangle1);
                       cs = set_neighbor cs triangle2 index22 (oldNeighbors1 ! index1)
                   in Returns cs))
      | _ \<Rightarrow> Throws)"

definition strictlyLessThan :: "jsnum \<Rightarrow> jsnum \<Rightarrow> bool" where
  "strictlyLessThan x y = (x + Fin (1 / 100000) * Math_abs x < y)"

text \<open>
  \<open>investigateAndFixTriangle\<close> flips at the first forming point of the neighbour that
  lies inside the circumcircle, and returns. The flip does not depend on which point
  that was.
\<close>

definition investigateAndFixTriangle ::
  "triangle list \<Rightarrow> nat \<Rightarrow> nat \<Rightarrow> (bool \<times> triangle list) outcome" where
  "investigateAndFixTriangle cs t neighbor =
     (if list_ex (\<lambda>p. strictlyLessThan (distanceToCircumcenter (cs ! t) p) (getRadius (cs ! t)))
           (points (cs ! neighbor))
      then (case flip cs t neighbor of
              Throws \<Rightarrow> Throws
            | Returns cs' \<Rightarrow> Returns (True, cs'))
      else Returns (False, cs))"

text \<open>
  \<open>findAndFixViolatedTriangles\<close>, as the loop of the source from the index \<open>i\<close> on; the
  source enters it with \<open>i = 0\<close>.
\<close>

partial_function (option) findAndFixViolatedTriangles_from ::
  "triangle list \<Rightarrow> nat \<Rightarrow> nat \<Rightarrow> triangle list outcome option" where
  "findAndFixViolatedTriangles_from cs t i =
     (if i < length (neighbors (cs ! t)) then
        (case neighbors (cs ! t) ! i of
           None \<Rightarrow> findAndFixViolatedTriangles_from cs t (i + 1)
         | Some neighbor \<Rightarrow>
             (case investigateAndFixTriangle cs t neighbor of
                Throws \<Rightarrow> Some Throws
              | Returns res \<Rightarrow>
                  if fst res then
                    Option.bind (findAndFixViolatedTriangles_from (snd res) neighbor 0)
                      (\<lambda>r. case r of
                              Throws \<Rightarrow> Some Throws
                            | Returns cs' \<Rightarrow> findAndFixViolatedTriangles_from cs' t 0)
                  else findAndFixViolatedTriangles_from (snd res) t (i + 1)))
      else Some (Returns cs))"

definition findAndFixViolatedTriangles :: "triangle list \<Rightarrow> nat \<Rightarrow> triangle list outcome option" where
  "findAndFixViolatedTriangles cs t = findAndFixViolatedTriangles_from cs t 0"

text \<open>
  \<open>seq\<close> runs a step that may not return or may throw, and then the next one.
\<close>

definition seq :: "'a outcome option \<Rightarrow> ('a \<Rightarrow> 'b outcome option) \<Rightarrow> 'b outcome option" where
  "seq m f = (case m of None \<Rightarrow> None | Some Throws \<Rightarrow> Some Throws | Some (Returns a) \<Rightarrow> f a)"

text \<open>
  \<open>splitTriangle\<close> in its two parts: \<open>splitTriangle_link\<close> creates the three triangles
  (new objects at the end of the store) and sets the neighbour references;
  \<open>splitTriangle\<close> then repairs the three triangles in turn and returns the first.
\<close>

definition splitTriangle_link :: "triangle list \<Rightarrow> nat \<Rightarrow> point \<Rightarrow> triangle list" where
  "splitTriangle_link cs t point =
     (let pts = points (cs ! t);
          nbs = neighbors (cs ! t);
          triangle1 = length cs;
          triangle2 = length cs + 1;
          triangle3 = length cs + 2;
          cs = cs @ [Triangle [pts ! 0, pts ! 1, point] [None, None, None],
                     Triangle [point, pts ! 1, pts ! 2] [None, None, None],
                     Triangle [pts ! 0, point, pts ! 2] [None, None, None]];
          cs = set_neighbor cs triangle1 0 (nbs ! 0);
          cs = set_neighbor cs triangle1 1 (Some triangle2);
          cs = set_neighbor cs triangle1 2 (Some triangle3);
          cs = replaceNeighbor cs (neighbors (cs ! triangle1) ! 0) t triangle1;
          cs = set_neighbor cs triangle2 0 (Some triangle1);
          cs = set_neighbor cs triangle2 1 (nbs ! 1);
          cs = set_neighbor cs triangle2 2 (Some triangle3);
          cs = replaceNeighbor cs (neighbors (cs ! triangle2) ! 1) t triangle2;
          cs = set_neighbor cs triangle3 0 (Some triangle1);
          cs = set_neighbor cs triangle3 1 (Some triangle2);
          cs = set_neighbor cs triangle3 2 (nbs ! 2);
          cs = replaceNeighbor cs (neighbors (cs ! triangle3) ! 2) t triangle3
      in cs)"

definition splitTriangle :: "triangle list \<Rightarrow> nat \<Rightarrow> point \<Rightarrow> (nat \<times> triangle list) outcome option" where
  "splitTriangle cs t point =
     (let triangle1 = length cs;
          triangle2 = length cs + 1;
          triangle3 = length cs + 2;
          cs = splitTriangle_link cs t point
      in seq (findAndFixViolatedTriangles cs triangle1) (\<lambda>cs.
         seq (findAndFixViolatedTriangles cs triangle2) (\<lambda>cs.
         seq (findAndFixViolatedTriangles cs triangle3) (\<lambda>cs.
         Some (Returns (triangle1, cs))))))"

subsection \<open>Inserting points\<close>

fun insert_points :: "delaunay \<Rightarrow> point list \<Rightarrow> delaunay outcome option" where
  "insert_points st [] = Some (Returns st)"
| "insert_points st (point # rest) =
     (let srch = d_search st;
          st = st\<lparr>d_search := d_search st + 1\<rparr>
      in seq (findContainingTriangle srch (Some (d_root st)) point (cells st)) (\<lambda>(found, cs).
           case found of
             Some t \<Rightarrow>
               seq (splitTriangle cs t point) (\<lambda>(triangle1, cs).
                 insert_points (st\<lparr>cells := cs, d_root := triangle1\<rparr>) rest)
           | None \<Rightarrow> insert_points (st\<lparr>cells := cs, console := console st @ [point]\<rparr>) rest))"

section \<open>Arithmetic on finite numbers\<close>

lemma Fin_minus [simp]: "Fin a - Fin b = Fin (a - b)"
  by (simp add: minus_jsnum_def)

lemma sqrt3_bounds: "5 / 3 < sqrt 3" "sqrt 3 < 2"
proof -
  show "5 / 3 < sqrt 3" by (rule real_less_rsqrt) (simp add: power2_eq_square)
  show "sqrt 3 < 2" by (rule real_less_lsqrt) (simp_all add: power2_eq_square)
qed

section \<open>The ordering heuristic\<close>

lemma minimalDistance_loop_keeps: "minimalDistance_loop point qs minimal = minimal"
  by (induction qs) (simp_all add: Let_def)

lemma minimalDistance_is_first:
  "minimalDistance point t = calculateDistanceSquarePlane point (points t ! 0)"
  by (simp add: minimalDistance_def minimalDistance_loop_keeps)

text \<open>
  C5. The claim says that \<open>minimalDistance\<close> is the least of the three squared distances
  from the query point to the forming points. The code returns the squared distance to
  the first forming point: for the query point \<open>(0, 0)\<close> and the triangle with the forming
  points \<open>(3, 0)\<close>, \<open>(1, 0)\<close>, \<open>(5, 5)\<close> it returns 9, while the second forming point is at
  squared distance 1.
\<close>

theorem minimalDistance_ignores_closer_points:
  "minimalDistance (Point (Caller 0) (Fin 0) (Fin 0) (Fin 0))
     (Triangle [Point (Caller 1) (Fin 3) (Fin 0) (Fin 0),
                Point (Caller 2) (Fin 1) (Fin 0) (Fin 0),
                Point (Caller 3) (Fin 5) (Fin 5) (Fin 0)] [None, None, None]) = Fin 9
   \<and> calculateDistanceSquarePlane (Point (Caller 0) (Fin 0) (Fin 0) (Fin 0))
        (Point (Caller 2) (Fin 1) (Fin 0) (Fin 0)) = Fin 1"
  by (simp add: minimalDistance_def Triangle_def Point_def calculateDistanceSquarePlane_def Let_def)

section \<open>The priority queue\<close>

lemma insert_q_first: "insert_q (new_Queue cmp) e = \<lparr>elements = [None, Some e], compare = cmp\<rparr>"
  by (simp add: insert_q_def new_Queue_def Let_def)

lemma pop_q_single:
  "pop_q \<lparr>elements = [None, Some e], compare = cmp\<rparr> =
     Some (Some e, \<lparr>elements = [None, Some e], compare = cmp\<rparr>)"
  by (simp add: pop_q_def js_read_def js_pop_def js_write_def cascadeDown.simps
      leftChildIndex_def rightChildIndex_def Let_def)

text \<open>
  C4. The claim says that \<open>pop\<close> removes the element it returns, so that a queue with one
  element is empty afterwards. On the queue that holds the single element 7, \<open>pop\<close>
  returns 7 and leaves the queue as it was: the array still holds 7 in slot 1 and
  \<open>isEmpty\<close> answers false.
\<close>

theorem pop_keeps_the_last_element:
  "pop_q (insert_q (new_Queue (\<lambda>a b. Fin (real a - real b))) (7::nat)) =
     Some (Some 7, insert_q (new_Queue (\<lambda>a b. Fin (real a - real b))) 7)
   \<and> elements (insert_q (new_Queue (\<lambda>a b. Fin (real a - real b))) (7::nat)) = [None, Some 7]
   \<and> \<not> isEmpty (insert_q (new_Queue (\<lambda>a b. Fin (real a - real b))) (7::nat))"
  by (simp add: insert_q_first pop_q_single isEmpty_def)

section \<open>The harvest of a fresh triangulation\<close>

text \<open>
  C10. On a freshly constructed triangulation \<open>getTriangles\<close> returns the empty array,
  for every bounding box: the store holds the bounding triangle only, which \<open>addTriangle\<close>
  stamps and leaves out because its forming points are the three bounding points.
\<close>

theorem fresh_getTriangles_empty:
  "getTriangles (Delaunay min_x max_x min_y max_y) =
     Some ([], (Delaunay min_x max_x min_y max_y)
                 \<lparr>d_search := 1,
                  cells := [(cells (Delaunay min_x max_x min_y max_y) ! 0)\<lparr>search := Some 0\<rparr>]\<rparr>)
   \<and> length (cells (Delaunay min_x max_x min_y max_y)) = 1
   \<and> map oid (points (cells (Delaunay min_x max_x min_y max_y) ! 0)) = [Bounding1, Bounding2, Bounding3]
   \<and> map oid [point1 (Delaunay min_x max_x min_y max_y), point2 (Delaunay min_x max_x min_y max_y),
               point3 (Delaunay min_x max_x min_y max_y)] = [Bounding1, Bounding2, Bounding3]"
  by (simp add: getTriangles_def Delaunay_def Let_def collectTriangles_def addRoot_def
      addTriangle_def Triangle_def Point_def same_point_def addRoot_neighbors.simps
      collectTriangles_loop.simps)

section \<open>The bounding triangle\<close>

text \<open>The numbers of the constructor for a bounding box with finite corners.\<close>

definition box_radius :: "real \<Rightarrow> real \<Rightarrow> real \<Rightarrow> real \<Rightarrow> real" where
  "box_radius a b c d = sqrt ((b - a) * (b - a) + (d - c) * (d - c)) / 2"

definition box_side :: "real \<Rightarrow> real \<Rightarrow> real \<Rightarrow> real \<Rightarrow> real" where
  "box_side a b c d = 6 * box_radius a b c d * (3 / 2) / sqrt 3"

definition box_height :: "real \<Rightarrow> real \<Rightarrow> real \<Rightarrow> real \<Rightarrow> real" where
  "box_height a b c d = box_side a b c d * sqrt 3 / 2"

lemma box_side_eq: "box_side a b c d = 3 * sqrt 3 * box_radius a b c d"
proof -
  have "9 / sqrt 3 = 3 * sqrt 3" by (simp add: field_simps)
  then have "9 * box_radius a b c d / sqrt 3 = 3 * sqrt 3 * box_radius a b c d"
    by (metis times_divide_eq_left mult.commute mult.assoc)
  then show ?thesis by (simp add: box_side_def)
qed

lemma box_height_eq: "box_height a b c d = 9 / 2 * box_radius a b c d"
  by (simp add: box_height_def box_side_def)

lemma Delaunay_root: "d_root (Delaunay min_x max_x min_y max_y) = 0"
  by (simp add: Delaunay_def Let_def)

lemma Delaunay_cells:
  "cells (Delaunay (Fin a) (Fin b) (Fin c) (Fin d)) =
     [Triangle [Point Bounding1 (Fin ((a + b) / 2 - box_side a b c d / 2))
                  (Fin ((c + d) / 2 - box_radius a b c d)) (Fin 0),
                Point Bounding2 (Fin ((a + b) / 2))
                  (Fin ((c + d) / 2 + box_height a b c d)) (Fin 0),
                Point Bounding3 (Fin ((a + b) / 2 + box_side a b c d / 2))
                  (Fin ((c + d) / 2 - box_radius a b c d)) (Fin 0)]
        [None, None, None]]"
  using not_sum_squares_lt_zero [of "b - a" "d - c"]
  by (simp add: Delaunay_def Let_def box_height_def box_side_def box_radius_def)

lemma box_radius_bounds:
  assumes "a < b" "c < d"
  shows "(b - a) / 2 < box_radius a b c d" "(d - c) / 2 < box_radius a b c d"
proof -
  have "sqrt ((b - a) * (b - a)) < sqrt ((b - a) * (b - a) + (d - c) * (d - c))"
    using assms by (intro real_sqrt_less_mono) simp
  then show "(b - a) / 2 < box_radius a b c d"
    using assms by (simp add: box_radius_def)
  have "sqrt ((d - c) * (d - c)) < sqrt ((b - a) * (b - a) + (d - c) * (d - c))"
    using assms by (intro real_sqrt_less_mono) simp
  then show "(d - c) / 2 < box_radius a b c d"
    using assms by (simp add: box_radius_def)
qed

lemma barycentric_Fin:
  assumes "points t = [Point i1 (Fin x1) (Fin y1) z1, Point i2 (Fin x2) (Fin y2) z2,
                       Point i3 (Fin x3) (Fin y3) z3]"
    and "x1*(y3-y2)+x2*(y1-y3)+x3*(y2-y1) \<noteq> 0"
  shows "barycentric t (Point i (Fin x) (Fin y) z) =
     (Fin ((- (x*(y3-y1)+x1*(y-y3)+x3*(y1-y))) / (x1*(y3-y2)+x2*(y1-y3)+x3*(y2-y1))),
      Fin ((x*(y2-y1)+x1*(y-y2)+x2*(y1-y)) / (x1*(y3-y2)+x2*(y1-y3)+x3*(y2-y1))))"
  using assms by (simp add: barycentric_def Point_def Let_def)

text \<open>
  The two numbers of the containment test for the bounding triangle, in closed form:
  with \<open>R\<close> the radius and \<open>S\<close> the side, the common denominator is \<open>11/2 R S\<close>.
\<close>

lemma barycentric_root:
  fixes a b c d x y :: real
  assumes Rpos: "0 < box_radius a b c d"
  shows "barycentric (cells (Delaunay (Fin a) (Fin b) (Fin c) (Fin d)) ! 0) (Point i (Fin x) (Fin y) z) =
    (Fin ((box_side a b c d * (y - (c + d) / 2) + box_radius a b c d * box_side a b c d)
          / (11 / 2 * (box_radius a b c d * box_side a b c d))),
     Fin ((11 / 2 * (box_radius a b c d * (x - (a + b) / 2))
           - 1 / 2 * (box_side a b c d * (y - (c + d) / 2))
           + 9 / 4 * (box_radius a b c d * box_side a b c d))
          / (11 / 2 * (box_radius a b c d * box_side a b c d))))"
proof -
  define R where "R = box_radius a b c d"
  define S where "S = box_side a b c d"
  define H where "H = box_height a b c d"
  define m where "m = (a + b) / 2"
  define n where "n = (c + d) / 2"
  have H: "H = 9 / 2 * R" by (simp add: H_def R_def box_height_eq)
  have S: "S = 3 * sqrt 3 * R" by (simp add: S_def R_def box_side_eq)
  have Spos: "0 < S" using Rpos by (simp add: S R_def)
  define den where "den = (m - S / 2) * ((n - R) - (n + H)) + m * ((n - R) - (n - R))
                          + (m + S / 2) * ((n + H) - (n - R))"
  define un where "un = - (x * ((n - R) - (n - R)) + (m - S / 2) * (y - (n - R))
                          + (m + S / 2) * ((n - R) - y))"
  define vn where "vn = x * ((n + H) - (n - R)) + (m - S / 2) * (y - (n + H)) + m * ((n - R) - y)"
  have den_eq: "den = 11 / 2 * (R * S)" by (simp add: den_def H field_simps)
  have un_eq: "un = S * (y - n) + R * S" by (simp add: un_def field_simps)
  have vn_eq: "vn = 11 / 2 * (R * (x - m)) - 1 / 2 * (S * (y - n)) + 9 / 4 * (R * S)"
    by (simp add: vn_def H field_simps)
  have nz: "(m - S / 2) * ((n - R) - (n + H)) + m * ((n - R) - (n - R))
            + (m + S / 2) * ((n + H) - (n - R)) \<noteq> 0"
  proof -
    have "0 < den" unfolding den_eq using Rpos Spos by (simp add: R_def)
    then show ?thesis unfolding den_def by simp
  qed
  have "barycentric (cells (Delaunay (Fin a) (Fin b) (Fin c) (Fin d)) ! 0) (Point i (Fin x) (Fin y) z)
          = (Fin (un / den), Fin (vn / den))"
    unfolding Delaunay_cells nth_Cons_0 un_def vn_def den_def
    by (rule barycentric_Fin [OF _ nz, folded m_def n_def R_def S_def H_def])
      (simp add: Triangle_def m_def n_def R_def S_def H_def)
  then show ?thesis
    by (simp add: un_eq vn_eq den_eq R_def S_def m_def n_def)
qed

text \<open>
  C6. For a bounding box with \<open>min_x < max_x\<close> and \<open>min_y < max_y\<close> and a point of the box,
  the two numbers \<open>u\<close> and \<open>v\<close> that the containment test computes for the root triangle of
  the constructor satisfy \<open>u > 0\<close>, \<open>v > 0\<close> and \<open>u + v < 1\<close>, in exact arithmetic.
\<close>

theorem bounding_triangle_contains_box:
  fixes min_x max_x min_y max_y x y :: real
  assumes "min_x < max_x" "min_y < max_y" "min_x \<le> x" "x \<le> max_x" "min_y \<le> y" "y \<le> max_y"
  shows "case barycentric
                (cells (Delaunay (Fin min_x) (Fin max_x) (Fin min_y) (Fin max_y))
                   ! d_root (Delaunay (Fin min_x) (Fin max_x) (Fin min_y) (Fin max_y)))
                (Point i (Fin x) (Fin y) z) of
           (u, v) \<Rightarrow> Fin 0 < u \<and> Fin 0 < v \<and> u + v < Fin 1"
proof -
  define R where "R = box_radius min_x max_x min_y max_y"
  define S where "S = box_side min_x max_x min_y max_y"
  define dx where "dx = x - (min_x + max_x) / 2"
  define dy where "dy = y - (min_y + max_y) / 2"
  have R: "(max_x - min_x) / 2 < R" "(max_y - min_y) / 2 < R"
    using box_radius_bounds [OF assms(1,2)] by (simp_all add: R_def)
  have Rpos: "0 < R" using R(1) assms(1) by argo
  have S: "S = 3 * sqrt 3 * R" by (simp add: S_def R_def box_side_eq)
  have S5: "5 * R < S" using sqrt3_bounds(1) Rpos by (simp add: S)
  have dxb: "- R < dx" "dx < R" using assms(3,4) R(1) unfolding dx_def by argo+
  have dyb: "- R < dy" "dy < R" using assms(5,6) R(2) unfolding dy_def by argo+
  define den where "den = 11 / 2 * (R * S)"
  define un where "un = S * dy + R * S"
  define vn where "vn = 11 / 2 * (R * dx) - 1 / 2 * (S * dy) + 9 / 4 * (R * S)"
  have Spos: "0 < S" using S5 Rpos by linarith
  have p1: "- (R * R) < R * dx" "R * dx < R * R"
    using mult_strict_left_mono [OF dxb(1) Rpos] mult_strict_left_mono [OF dxb(2) Rpos] by simp_all
  have p2: "- (S * R) < S * dy" "S * dy < S * R"
    using mult_strict_left_mono [OF dyb(1) Spos] mult_strict_left_mono [OF dyb(2) Spos] by simp_all
  have p3: "5 * (R * R) < R * S"
    using mult_strict_left_mono [OF S5 Rpos] by simp
  have SR: "S * R = R * S" by simp
  have RR: "0 < R * R" using Rpos by simp
  have den_pos: "0 < den" using p3 RR by (simp add: den_def)
  have un_pos: "0 < un" using p2(1) by (simp add: un_def SR)
  have vn_pos: "0 < vn" using p1(1) p2(2) p3 RR unfolding vn_def SR by linarith
  have sum_lt: "un + vn < den" using p1(2) p2(2) p3 RR unfolding un_def vn_def den_def SR by linarith
  have bary: "barycentric
                (cells (Delaunay (Fin min_x) (Fin max_x) (Fin min_y) (Fin max_y))
                   ! d_root (Delaunay (Fin min_x) (Fin max_x) (Fin min_y) (Fin max_y)))
                (Point i (Fin x) (Fin y) z) = (Fin (un / den), Fin (vn / den))"
    unfolding Delaunay_root un_def vn_def den_def dx_def dy_def R_def S_def
    by (rule barycentric_root) (use Rpos in \<open>simp add: R_def\<close>)
  have "0 < un / den" using un_pos den_pos by simp
  moreover have "0 < vn / den" using vn_pos den_pos by simp
  moreover have "un / den + vn / den < 1"
    using sum_lt den_pos by (simp add: add_divide_distrib [symmetric])
  ultimately show ?thesis by (simp add: bary)
qed

theorem bounding_triangle_contains_box_witness:
  "case barycentric
          (cells (Delaunay (Fin 0) (Fin 640) (Fin 0) (Fin 480))
             ! d_root (Delaunay (Fin 0) (Fin 640) (Fin 0) (Fin 480)))
          (Point (Caller 1) (Fin 320) (Fin 240) (Fin 0)) of
     (u, v) \<Rightarrow> Fin 0 < u \<and> Fin 0 < v \<and> u + v < Fin 1"
  using bounding_triangle_contains_box [of 0 640 0 480 320 240 "Caller 1" "Fin 0"] by simp

section \<open>Triangles with a zero denominator\<close>

text \<open>A squared distance that involves a non-finite coordinate is \<open>Infinity\<close> or \<open>NaN\<close>.\<close>

definition infinite_or_nan :: "jsnum \<Rightarrow> bool" where
  "infinite_or_nan s = (s = PInf \<or> s = NaN)"

lemma square_of_nonfinite: "\<not> finite_num u \<Longrightarrow> infinite_or_nan ((a - u) * (a - u))"
  by (cases u; cases a) (simp_all add: infinite_or_nan_def minus_jsnum_def)

lemma sum_of_nonfinite: "infinite_or_nan s \<Longrightarrow> infinite_or_nan t \<Longrightarrow> infinite_or_nan (s + t)"
  by (auto simp: infinite_or_nan_def)

lemma strictlyLessThan_nonfinite: "infinite_or_nan d \<Longrightarrow> \<not> strictlyLessThan d r"
  by (cases r) (auto simp: infinite_or_nan_def strictlyLessThan_def)

lemma circumcentre_degenerate:
  assumes pts: "pts = [Point i1 (Fin x1) (Fin y1) z1, Point i2 (Fin x2) (Fin y2) z2,
                       Point i3 (Fin x3) (Fin y3) z3]"
    and den: "x1*(y3-y2)+x2*(y1-y3)+x3*(y2-y1) = 0"
  shows "\<not> finite_num (px (calculateCircumcentre pts))"
    and "\<not> finite_num (py (calculateCircumcentre pts))"
proof -
  have d0: "(2*x2-2*x1)*y3+(2*x1-2*x3)*y2+(2*x3-2*x2)*y1 = 0"
    using den by (simp add: algebra_simps)
  show "\<not> finite_num (px (calculateCircumcentre pts))"
    by (simp add: calculateCircumcentre_def pts Point_def Let_def d0)
  show "\<not> finite_num (py (calculateCircumcentre pts))"
    by (simp add: calculateCircumcentre_def pts Point_def Let_def d0)
qed





section \<open>The search for a point that no triangle contains\<close>

text \<open>
  A state of the search loop is stuck when the queue is not empty, \<open>pop\<close> returns a
  triangle and leaves the queue as it was, the triangle does not contain the point, and
  expanding it changes neither the store nor the queue. From a stuck state the loop
  reaches the same state again.
\<close>

definition stuck :: "nat \<Rightarrow> point \<Rightarrow> triangle list \<Rightarrow> nat Queue \<Rightarrow> bool" where
  "stuck srch p cs q =
     (\<not> isEmpty q \<and>
      (\<exists>t. pop_q q = Some (Some t, q) \<and> \<not> containsPoint (cs ! t) p \<and>
           fold (expand srch) (neighbors (cs ! t)) (cs, q) = (cs, q)))"

lemma returns_not_stuck:
  assumes "findContainingTriangle_loop srch p cs q = Some r"
  shows "\<not> stuck srch p cs q"
proof (rule findContainingTriangle_loop.raw_induct
    [where P = "\<lambda>srch p cs q r. \<not> stuck srch p cs q", OF _ assms], goal_cases)
  case (1 f srch p cs q r)
  show ?case
  proof
    assume s: "stuck srch p cs q"
    then obtain t where t: "\<not> isEmpty q" "pop_q q = Some (Some t, q)"
      "\<not> containsPoint (cs ! t) p"
      "fold (expand srch) (neighbors (cs ! t)) (cs, q) = (cs, q)"
      by (auto simp: stuck_def)
    with 1(2) have "f srch p cs q = Some r" by simp
    with 1(1) s show False by blast
  qed
qed

lemma stuck_never_returns:
  "stuck srch p cs q \<Longrightarrow> findContainingTriangle_loop srch p cs q = None"
  using returns_not_stuck by (cases "findContainingTriangle_loop srch p cs q") auto

lemma box_radius_640_480: "box_radius 0 640 0 480 = 400"
proof -
  have "(640 * 640 + 480 * 480 :: real) = 800\<^sup>2" by (simp add: power2_eq_square)
  then have "sqrt (640 * 640 + 480 * 480) = 800" by (simp only: real_sqrt_abs)
  then show ?thesis by (simp add: box_radius_def)
qed

lemma outside_not_contained:
  "\<not> containsPoint (cells (Delaunay (Fin 0) (Fin 640) (Fin 0) (Fin 480)) ! 0)
       (Point (Caller 1) (Fin 320) (Fin 5000) (Fin 0))"
proof -
  have S: "0 < box_side 0 640 0 480" by (simp add: box_side_eq box_radius_640_480)
  have "(11 / 2 * (400 * (320 - (0 + 640) / 2))
           - 1 / 2 * (box_side 0 640 0 480 * (5000 - (0 + 480) / 2))
           + 9 / 4 * (400 * box_side 0 640 0 480))
          / (11 / 2 * (400 * box_side 0 640 0 480)) < 0"
    using S by (simp add: field_simps)
  then show ?thesis
    by (simp add: containsPoint_def isPointInTriangle_def barycentric_root box_radius_640_480
        del: Fin_minus)
qed

text \<open>
  C3. The claim says that the search returns \<open>null\<close> when no triangle contains the point.
  On the triangulation that the page constructs, \<open>Delaunay(0, 640, 0, 480)\<close>, and the point
  \<open>(320, 5000, 0)\<close>, which lies outside the bounding triangle, \<open>findContainingTriangle\<close>
  does not return, and neither does \<open>insert\<close>: \<open>pop\<close> leaves the only element in the queue,
  so the queue never becomes empty.
\<close>

theorem findContainingTriangle_runs_forever:
  "findContainingTriangle 0 (Some (d_root (Delaunay (Fin 0) (Fin 640) (Fin 0) (Fin 480))))
     (Point (Caller 1) (Fin 320) (Fin 5000) (Fin 0))
     (cells (Delaunay (Fin 0) (Fin 640) (Fin 0) (Fin 480))) = None
   \<and> insert_points (Delaunay (Fin 0) (Fin 640) (Fin 0) (Fin 480))
        [Point (Caller 1) (Fin 320) (Fin 5000) (Fin 0)] = None"
proof -
  let ?cs = "cells (Delaunay (Fin 0) (Fin 640) (Fin 0) (Fin 480))"
  let ?p = "Point (Caller 1) (Fin 320) (Fin 5000) (Fin 0)"
  have nb: "neighbors (?cs ! 0) = [None, None, None]" "search (?cs ! 0) = None"
    by (simp_all add: Delaunay_cells Triangle_def)
  have "stuck 0 ?p ?cs
          \<lparr>elements = [None, Some 0],
           compare = (\<lambda>x y. compareTriangles ?p (?cs ! x) (?cs ! y))\<rparr>"
    unfolding stuck_def using outside_not_contained
    by (simp add: isEmpty_def pop_q_single nb expand_def)
  from stuck_never_returns [OF this]
  have find: "findContainingTriangle 0 (Some (d_root (Delaunay (Fin 0) (Fin 640) (Fin 0) (Fin 480))))
     ?p ?cs = None"
    by (simp add: findContainingTriangle_def Delaunay_root nb insert_q_first Let_def)
  have zero: "d_search (Delaunay (Fin 0) (Fin 640) (Fin 0) (Fin 480)) = 0"
    by (simp add: Delaunay_def Let_def)
  show ?thesis
    using find by (simp add: Let_def seq_def zero)
qed

section \<open>The circumcircle test on finite coordinates\<close>

text \<open>
  For forming points with finite planar coordinates the circumcenter is \<open>(U / D, V / D)\<close>
  with the polynomials below, and the difference between the squared distance of a point
  to the circumcenter and the squared circumradius is \<open>incircle / D\<close>.
\<close>

definition cc_den :: "real \<Rightarrow> real \<Rightarrow> real \<Rightarrow> real \<Rightarrow> real \<Rightarrow> real \<Rightarrow> real" where
  "cc_den x1 y1 x2 y2 x3 y3 = (2*x2-2*x1)*y3+(2*x1-2*x3)*y2+(2*x3-2*x2)*y1"

definition cc_unum :: "real \<Rightarrow> real \<Rightarrow> real \<Rightarrow> real \<Rightarrow> real \<Rightarrow> real \<Rightarrow> real" where
  "cc_unum x1 y1 x2 y2 x3 y3 =
     - ((y2-y1)*(y3*y3)+(-(y2*y2)+(y1*y1)-(x2*x2)+(x1*x1))*y3+y1*(y2*y2)
        +(-(y1*y1)+(x3*x3)-(x1*x1))*y2+((x2*x2)-(x3*x3))*y1)"

definition cc_vnum :: "real \<Rightarrow> real \<Rightarrow> real \<Rightarrow> real \<Rightarrow> real \<Rightarrow> real \<Rightarrow> real" where
  "cc_vnum x1 y1 x2 y2 x3 y3 =
     (x2-x1)*(y3*y3)+(x1-x3)*(y2*y2)+(x3-x2)*(y1*y1)+(x2-x1)*(x3*x3)
        +((x1*x1)-(x2*x2))*x3+x1*(x2*x2)-(x1*x1)*x2"

definition incircle :: "real \<Rightarrow> real \<Rightarrow> real \<Rightarrow> real \<Rightarrow> real \<Rightarrow> real \<Rightarrow> real \<Rightarrow> real \<Rightarrow> real" where
  "incircle x1 y1 x2 y2 x3 y3 x y =
     (x*x + y*y - x1*x1 - y1*y1) * cc_den x1 y1 x2 y2 x3 y3
     - 2 * cc_unum x1 y1 x2 y2 x3 y3 * (x - x1) - 2 * cc_vnum x1 y1 x2 y2 x3 y3 * (y - y1)"

lemma circumcentre_Fin:
  assumes "cc_den x1 y1 x2 y2 x3 y3 \<noteq> 0"
  shows "px (calculateCircumcentre [Point i1 (Fin x1) (Fin y1) z1, Point i2 (Fin x2) (Fin y2) z2, Point i3 (Fin x3) (Fin y3) z3])
           = Fin (cc_unum x1 y1 x2 y2 x3 y3 / cc_den x1 y1 x2 y2 x3 y3)"
    and "py (calculateCircumcentre [Point i1 (Fin x1) (Fin y1) z1, Point i2 (Fin x2) (Fin y2) z2, Point i3 (Fin x3) (Fin y3) z3])
           = Fin (cc_vnum x1 y1 x2 y2 x3 y3 / cc_den x1 y1 x2 y2 x3 y3)"
  using assms
  by (simp_all add: calculateCircumcentre_def Point_def Let_def cc_den_def cc_unum_def cc_vnum_def)

lemma dist_diff_poly:
  fixes a b x y x1 y1 :: real
  shows "((x - a) * (x - a) + (y - b) * (y - b)) - ((x1 - a) * (x1 - a) + (y1 - b) * (y1 - b))
       = (x*x + y*y - x1*x1 - y1*y1) - 2 * a * (x - x1) - 2 * b * (y - y1)"
  by (simp add: algebra_simps)

lemma dist_diff:
  fixes D U V x y x1 y1 :: real
  assumes D: "D \<noteq> 0"
  shows "((x - U / D) * (x - U / D) + (y - V / D) * (y - V / D))
         - ((x1 - U / D) * (x1 - U / D) + (y1 - V / D) * (y1 - V / D))
         = ((x*x + y*y - x1*x1 - y1*y1) * D - 2 * U * (x - x1) - 2 * V * (y - y1)) / D"
proof -
  have "((x*x + y*y - x1*x1 - y1*y1) * D - 2 * U * (x - x1) - 2 * V * (y - y1)) / D
      = (x*x + y*y - x1*x1 - y1*y1) - 2 * (U / D) * (x - x1) - 2 * (V / D) * (y - y1)"
    using D by (simp add: diff_divide_distrib)
  then show ?thesis by (simp only: dist_diff_poly)
qed

lemma incircle_vertices:
  "incircle x1 y1 x2 y2 x3 y3 x1 y1 = 0"
  "incircle x1 y1 x2 y2 x3 y3 x2 y2 = 0"
  "incircle x1 y1 x2 y2 x3 y3 x3 y3 = 0"
  by (simp_all add: incircle_def cc_den_def cc_unum_def cc_vnum_def algebra_simps)

lemma strictlyLessThan_Fin:
  "strictlyLessThan (Fin d) (Fin r) = (d + 1 / 100000 * \<bar>d\<bar> < r)"
  by (simp add: strictlyLessThan_def)

lemma circle_values:
  assumes pts: "points t = [Point i1 (Fin x1) (Fin y1) z1, Point i2 (Fin x2) (Fin y2) z2, Point i3 (Fin x3) (Fin y3) z3]"
    and D: "cc_den x1 y1 x2 y2 x3 y3 \<noteq> 0"
    and u: "u = cc_unum x1 y1 x2 y2 x3 y3 / cc_den x1 y1 x2 y2 x3 y3"
    and v: "v = cc_vnum x1 y1 x2 y2 x3 y3 / cc_den x1 y1 x2 y2 x3 y3"
  shows "distanceToCircumcenter t (Point i (Fin x) (Fin y) z) = Fin ((x - u) * (x - u) + (y - v) * (y - v))"
    and "getRadius t = Fin ((x1 - u) * (x1 - u) + (y1 - v) * (y1 - v))"
proof -
  have c: "px (getCircumcenter t) = Fin u" "py (getCircumcenter t) = Fin v"
    using circumcentre_Fin [OF D] by (simp_all add: getCircumcenter_def pts u v)
  show "distanceToCircumcenter t (Point i (Fin x) (Fin y) z) = Fin ((x - u) * (x - u) + (y - v) * (y - v))"
    by (simp add: distanceToCircumcenter_def calculateDistanceSquarePlane_def Let_def c)
      (simp add: Point_def)
  show "getRadius t = Fin ((x1 - u) * (x1 - u) + (y1 - v) * (y1 - v))"
    by (simp add: getRadius_def calculateDistanceSquarePlane_def Let_def c pts)
      (simp add: Point_def)
qed

lemma incircle_test:
  assumes pts: "points t = [Point i1 (Fin x1) (Fin y1) z1, Point i2 (Fin x2) (Fin y2) z2, Point i3 (Fin x3) (Fin y3) z3]"
    and D: "cc_den x1 y1 x2 y2 x3 y3 \<noteq> 0"
    and Q: "0 \<le> incircle x1 y1 x2 y2 x3 y3 x y / cc_den x1 y1 x2 y2 x3 y3"
  shows "\<not> strictlyLessThan (distanceToCircumcenter t (Point i (Fin x) (Fin y) z)) (getRadius t)"
proof -
  define u where "u = cc_unum x1 y1 x2 y2 x3 y3 / cc_den x1 y1 x2 y2 x3 y3"
  define v where "v = cc_vnum x1 y1 x2 y2 x3 y3 / cc_den x1 y1 x2 y2 x3 y3"
  define d where "d = (x - u) * (x - u) + (y - v) * (y - v)"
  define r where "r = (x1 - u) * (x1 - u) + (y1 - v) * (y1 - v)"
  have cv: "distanceToCircumcenter t (Point i (Fin x) (Fin y) z) = Fin d" "getRadius t = Fin r"
    using circle_values [OF pts D u_def v_def] by (simp_all add: d_def r_def)
  have "d - r = incircle x1 y1 x2 y2 x3 y3 x y / cc_den x1 y1 x2 y2 x3 y3"
    unfolding d_def r_def u_def v_def incircle_def by (rule dist_diff [OF D])
  with Q have "r \<le> d" by simp
  moreover have "0 \<le> d" by (simp add: d_def)
  ultimately show ?thesis by (simp add: cv strictlyLessThan_Fin)
qed

lemma findAndFix_settled:
  assumes len: "length (neighbors (cs ! t)) = 3"
    and ok: "\<And>nb. Some nb \<in> set (neighbors (cs ! t)) \<Longrightarrow> investigateAndFixTriangle cs t nb = Returns (False, cs)"
  shows "findAndFixViolatedTriangles cs t = Some (Returns cs)"
proof -
  have step: "findAndFixViolatedTriangles_from cs t i = findAndFixViolatedTriangles_from cs t (Suc i)"
    if "i < 3" for i
  proof (cases "neighbors (cs ! t) ! i")
    case None
    then show ?thesis using that len by (subst findAndFixViolatedTriangles_from.simps) simp
  next
    case (Some nb)
    then have "Some nb \<in> set (neighbors (cs ! t))" using that len by (metis nth_mem)
    from ok [OF this] Some show ?thesis
      using that len by (subst findAndFixViolatedTriangles_from.simps) simp
  qed
  have "findAndFixViolatedTriangles_from cs t 0 = findAndFixViolatedTriangles_from cs t (Suc 0)"
    by (rule step) simp
  also have "\<dots> = findAndFixViolatedTriangles_from cs t (Suc (Suc 0))"
    by (rule step) simp
  also have "\<dots> = findAndFixViolatedTriangles_from cs t (Suc (Suc (Suc 0)))"
    by (rule step) simp
  also have "\<dots> = Some (Returns cs)"
    using len by (subst findAndFixViolatedTriangles_from.simps) simp
  finally show ?thesis
    by (simp add: findAndFixViolatedTriangles_def)
qed


text \<open>
  A point is outside the circumcircle of a triangle, for the repair, when the tolerance
  comparison of \<open>investigateAndFixTriangle\<close> is false for it.
\<close>

definition outside :: "triangle \<Rightarrow> point \<Rightarrow> bool" where
  "outside t p = (\<not> strictlyLessThan (distanceToCircumcenter t p) (getRadius t))"

lemma investigate_outside:
  assumes "\<And>p. p \<in> set (points (cs ! nb)) \<Longrightarrow> outside (cs ! t) p"
  shows "investigateAndFixTriangle cs t nb = Returns (False, cs)"
  using assms by (simp add: investigateAndFixTriangle_def list_ex_iff outside_def)

lemma outside_degenerate:
  assumes pts: "points t = [Point i1 (Fin x1) (Fin y1) z1, Point i2 (Fin x2) (Fin y2) z2, Point i3 (Fin x3) (Fin y3) z3]"
    and den: "x1*(y3-y2)+x2*(y1-y3)+x3*(y2-y1) = 0"
  shows "outside t p"
proof -
  have nf: "\<not> finite_num (px (getCircumcenter t))" "\<not> finite_num (py (getCircumcenter t))"
    using circumcentre_degenerate [OF pts den] by (simp_all add: getCircumcenter_def)
  show ?thesis
    unfolding outside_def
    by (rule strictlyLessThan_nonfinite)
      (simp add: distanceToCircumcenter_def calculateDistanceSquarePlane_def Let_def
        sum_of_nonfinite square_of_nonfinite nf)
qed

lemma outside_incircle:
  assumes pts: "points t = [Point i1 (Fin x1) (Fin y1) z1, Point i2 (Fin x2) (Fin y2) z2, Point i3 (Fin x3) (Fin y3) z3]"
    and D: "cc_den x1 y1 x2 y2 x3 y3 \<noteq> 0"
    and Q: "0 \<le> incircle x1 y1 x2 y2 x3 y3 x y / cc_den x1 y1 x2 y2 x3 y3"
  shows "outside t (Point i (Fin x) (Fin y) z)"
  unfolding outside_def by (rule incircle_test [OF pts D Q])

lemma outside_vertex:
  assumes pts: "points t = [Point i1 (Fin x1) (Fin y1) z1, Point i2 (Fin x2) (Fin y2) z2, Point i3 (Fin x3) (Fin y3) z3]"
    and D: "cc_den x1 y1 x2 y2 x3 y3 \<noteq> 0"
  shows "outside t (Point i (Fin x1) (Fin y1) z)"
    and "outside t (Point i (Fin x2) (Fin y2) z)"
    and "outside t (Point i (Fin x3) (Fin y3) z)"
  by (rule outside_incircle [OF pts D], simp add: incircle_vertices)+

section \<open>Two insertions into the triangulation of the page\<close>

text \<open>
  The page constructs \<open>Delaunay(0, 640, 0, 480)\<close>. Its bounding triangle has the forming
  points \<open>(320 - a0, -160)\<close>, \<open>(320, 2040)\<close> and \<open>(320 + a0, -160)\<close> with \<open>a0 = 600 sqrt 3\<close>.
  The runs below insert the point \<open>(320, 240, 0)\<close> and then either \<open>(320, 300, 0)\<close>, which
  lies on an edge of the mesh, or \<open>(320, 240, 1)\<close>, which lies above the first point.
\<close>

definition a0 :: real where
  "a0 = 600 * sqrt 3"

lemma a0_sq: "a0 * a0 = 1080000"
  by (simp add: a0_def)

lemma a0_sq': "a0 * (a0 * z) = 1080000 * z"
  using a0_sq by (metis mult.assoc)

lemma a0_pos: "0 < a0"
  by (simp add: a0_def)

definition q1 :: point where "q1 = Point Bounding1 (Fin (320 - a0)) (Fin (- 160)) (Fin 0)"
definition q2 :: point where "q2 = Point Bounding2 (Fin 320) (Fin 2040) (Fin 0)"
definition q3 :: point where "q3 = Point Bounding3 (Fin (320 + a0)) (Fin (- 160)) (Fin 0)"
definition click1 :: point where "click1 = Point (Caller 1) (Fin 320) (Fin 240) (Fin 0)"
definition click2 :: point where "click2 = Point (Caller 2) (Fin 320) (Fin 300) (Fin 0)"

definition twin :: point where "twin = Point (Caller 2) (Fin 320) (Fin 240) (Fin 1)"

definition page :: delaunay where
  "page = Delaunay (Fin 0) (Fin 640) (Fin 0) (Fin 480)"

lemma box_side_640_480: "box_side 0 640 0 480 / 2 = a0"
  by (simp add: box_side_eq box_radius_640_480 a0_def)

lemma box_height_640_480: "box_height 0 640 0 480 = 1800"
  by (simp add: box_height_eq box_radius_640_480)

lemma page_cells: "cells page = [Triangle [q1, q2, q3] [None, None, None]]"
  unfolding page_def Delaunay_cells
  by (simp add: q1_def q2_def q3_def box_side_640_480 box_height_640_480 box_radius_640_480)

lemma T1_outside:
  assumes "points t = [q1, q2, click1]"
  shows "outside t q1" "outside t q2" "outside t click1" "outside t q3"
proof -
  have D: "cc_den (320 - a0) (- 160) 320 2040 320 240 = (- 3600) * a0"
    by (simp add: cc_den_def algebra_simps)
  have D0: "cc_den (320 - a0) (- 160) 320 2040 320 240 \<noteq> 0"
    using a0_pos by (simp add: D)
  have pts: "points t = [Point Bounding1 (Fin (320 - a0)) (Fin (- 160)) (Fin 0), Point Bounding2 (Fin 320) (Fin 2040) (Fin 0), Point (Caller 1) (Fin 320) (Fin 240) (Fin 0)]"
    using assms by (simp add: q1_def q2_def click1_def)
  show "outside t q1" "outside t q2" "outside t click1"
    unfolding q1_def q2_def click1_def by (rule outside_vertex [OF pts D0])+
  have Q_q3: "incircle (320 - a0) (- 160) 320 2040 320 240 (320 + a0) (- 160) = 3920000 * ((- 3600) * a0)"
    by (simp add: incircle_def cc_den_def cc_unum_def cc_vnum_def algebra_simps a0_sq a0_sq')
  show "outside t q3"
    unfolding q3_def by (rule outside_incircle [OF pts D0]) (use a0_pos in \<open>simp add: D Q_q3\<close>)
qed

lemma T2_outside:
  assumes "points t = [click1, q2, q3]"
  shows "outside t click1" "outside t q2" "outside t q3" "outside t q1"
proof -
  have D: "cc_den 320 240 320 2040 (320 + a0) (- 160) = (- 3600) * a0"
    by (simp add: cc_den_def algebra_simps)
  have D0: "cc_den 320 240 320 2040 (320 + a0) (- 160) \<noteq> 0"
    using a0_pos by (simp add: D)
  have pts: "points t = [Point (Caller 1) (Fin 320) (Fin 240) (Fin 0), Point Bounding2 (Fin 320) (Fin 2040) (Fin 0), Point Bounding3 (Fin (320 + a0)) (Fin (- 160)) (Fin 0)]"
    using assms by (simp add: click1_def q2_def q3_def)
  show "outside t click1" "outside t q2" "outside t q3"
    unfolding click1_def q2_def q3_def by (rule outside_vertex [OF pts D0])+
  have Q_q1: "incircle 320 240 320 2040 (320 + a0) (- 160) (320 - a0) (- 160) = 3920000 * ((- 3600) * a0)"
    by (simp add: incircle_def cc_den_def cc_unum_def cc_vnum_def algebra_simps a0_sq a0_sq')
  show "outside t q1"
    unfolding q1_def by (rule outside_incircle [OF pts D0]) (use a0_pos in \<open>simp add: D Q_q1\<close>)
qed

lemma T3_outside:
  assumes "points t = [q1, click1, q3]"
  shows "outside t q1" "outside t click1" "outside t q3" "outside t q2"
proof -
  have D: "cc_den (320 - a0) (- 160) 320 240 (320 + a0) (- 160) = (- 1600) * a0"
    by (simp add: cc_den_def algebra_simps)
  have D0: "cc_den (320 - a0) (- 160) 320 240 (320 + a0) (- 160) \<noteq> 0"
    using a0_pos by (simp add: D)
  have pts: "points t = [Point Bounding1 (Fin (320 - a0)) (Fin (- 160)) (Fin 0), Point (Caller 1) (Fin 320) (Fin 240) (Fin 0), Point Bounding3 (Fin (320 + a0)) (Fin (- 160)) (Fin 0)]"
    using assms by (simp add: q1_def click1_def q3_def)
  show "outside t q1" "outside t click1" "outside t q3"
    unfolding q1_def click1_def q3_def by (rule outside_vertex [OF pts D0])+
  have Q_q2: "incircle (320 - a0) (- 160) 320 240 (320 + a0) (- 160) 320 2040 = 8820000 * ((- 1600) * a0)"
    by (simp add: incircle_def cc_den_def cc_unum_def cc_vnum_def algebra_simps a0_sq a0_sq')
  show "outside t q2"
    unfolding q2_def by (rule outside_incircle [OF pts D0]) (use a0_pos in \<open>simp add: D Q_q2\<close>)
qed

lemma T4_outside:
  assumes "points t = [q1, q2, click2]"
  shows "outside t q1" "outside t q2" "outside t click2" "outside t click1"
proof -
  have D: "cc_den (320 - a0) (- 160) 320 2040 320 300 = (- 3480) * a0"
    by (simp add: cc_den_def algebra_simps)
  have D0: "cc_den (320 - a0) (- 160) 320 2040 320 300 \<noteq> 0"
    using a0_pos by (simp add: D)
  have pts: "points t = [Point Bounding1 (Fin (320 - a0)) (Fin (- 160)) (Fin 0), Point Bounding2 (Fin 320) (Fin 2040) (Fin 0), Point (Caller 2) (Fin 320) (Fin 300) (Fin 0)]"
    using assms by (simp add: q1_def q2_def click2_def)
  show "outside t q1" "outside t q2" "outside t click2"
    unfolding q1_def q2_def click2_def by (rule outside_vertex [OF pts D0])+
  have Q_click1: "incircle (320 - a0) (- 160) 320 2040 320 300 320 240 = 108000 * ((- 3480) * a0)"
    by (simp add: incircle_def cc_den_def cc_unum_def cc_vnum_def algebra_simps a0_sq a0_sq')
  show "outside t click1"
    unfolding click1_def by (rule outside_incircle [OF pts D0]) (use a0_pos in \<open>simp add: D Q_click1\<close>)
qed

lemma T5_outside:
  assumes "points t = [click2, q2, click1]"
  shows "outside t p"
proof -
  have pts: "points t = [Point (Caller 2) (Fin 320) (Fin 300) (Fin 0), Point Bounding2 (Fin 320) (Fin 2040) (Fin 0), Point (Caller 1) (Fin 320) (Fin 240) (Fin 0)]"
    using assms by (simp add: click2_def q2_def click1_def)
  show ?thesis by (rule outside_degenerate [OF pts]) simp
qed

lemma T6_outside:
  assumes "points t = [q1, click2, click1]"
  shows "outside t q1" "outside t click2" "outside t click1" "outside t q2" "outside t q3"
proof -
  have D: "cc_den (320 - a0) (- 160) 320 300 320 240 = (- 120) * a0"
    by (simp add: cc_den_def algebra_simps)
  have D0: "cc_den (320 - a0) (- 160) 320 300 320 240 \<noteq> 0"
    using a0_pos by (simp add: D)
  have pts: "points t = [Point Bounding1 (Fin (320 - a0)) (Fin (- 160)) (Fin 0), Point (Caller 2) (Fin 320) (Fin 300) (Fin 0), Point (Caller 1) (Fin 320) (Fin 240) (Fin 0)]"
    using assms by (simp add: q1_def click2_def click1_def)
  show "outside t q1" "outside t click2" "outside t click1"
    unfolding q1_def click2_def click1_def by (rule outside_vertex [OF pts D0])+
  have Q_q2: "incircle (320 - a0) (- 160) 320 300 320 240 320 2040 = 3132000 * ((- 120) * a0)"
    by (simp add: incircle_def cc_den_def cc_unum_def cc_vnum_def algebra_simps a0_sq a0_sq')
  show "outside t q2"
    unfolding q2_def by (rule outside_incircle [OF pts D0]) (use a0_pos in \<open>simp add: D Q_q2\<close>)
  have Q_q3: "incircle (320 - a0) (- 160) 320 300 320 240 (320 + a0) (- 160) = 2528000 * ((- 120) * a0)"
    by (simp add: incircle_def cc_den_def cc_unum_def cc_vnum_def algebra_simps a0_sq a0_sq')
  show "outside t q3"
    unfolding q3_def by (rule outside_incircle [OF pts D0]) (use a0_pos in \<open>simp add: D Q_q3\<close>)
qed

lemma T4t_outside:
  assumes "points t = [q1, q2, twin]"
  shows "outside t q1" "outside t q2" "outside t twin" "outside t click1"
proof -
  have D: "cc_den (320 - a0) (- 160) 320 2040 320 240 = (- 3600) * a0"
    by (simp add: cc_den_def algebra_simps)
  have D0: "cc_den (320 - a0) (- 160) 320 2040 320 240 \<noteq> 0"
    using a0_pos by (simp add: D)
  have pts: "points t = [Point Bounding1 (Fin (320 - a0)) (Fin (- 160)) (Fin 0), Point Bounding2 (Fin 320) (Fin 2040) (Fin 0), Point (Caller 2) (Fin 320) (Fin 240) (Fin 1)]"
    using assms by (simp add: q1_def q2_def twin_def)
  show "outside t q1" "outside t q2" "outside t twin"
    unfolding q1_def q2_def twin_def by (rule outside_vertex [OF pts D0])+
  show "outside t click1"
    unfolding click1_def by (rule outside_vertex [OF pts D0])
qed

lemma T5t_outside:
  assumes "points t = [twin, q2, click1]"
  shows "outside t p"
proof -
  have pts: "points t = [Point (Caller 2) (Fin 320) (Fin 240) (Fin 1), Point Bounding2 (Fin 320) (Fin 2040) (Fin 0), Point (Caller 1) (Fin 320) (Fin 240) (Fin 0)]"
    using assms by (simp add: twin_def q2_def click1_def)
  show ?thesis by (rule outside_degenerate [OF pts]) simp
qed

lemma T6t_outside:
  assumes "points t = [q1, twin, click1]"
  shows "outside t p"
proof -
  have pts: "points t = [Point Bounding1 (Fin (320 - a0)) (Fin (- 160)) (Fin 0), Point (Caller 2) (Fin 320) (Fin 240) (Fin 1), Point (Caller 1) (Fin 320) (Fin 240) (Fin 0)]"
    using assms by (simp add: q1_def twin_def click1_def)
  show ?thesis by (rule outside_degenerate [OF pts]) simp
qed



lemma find_first:
  assumes "search (cs ! r) \<noteq> Some srch" "containsPoint (cs ! r) p"
  shows "findContainingTriangle srch (Some r) p cs = Some (Returns (Some r, cs))"
  using assms
  by (simp add: findContainingTriangle_def insert_q_first Let_def isEmpty_def pop_q_single
      findContainingTriangle_loop.simps)

lemma containsPoint_Fin:
  assumes "points t = [Point i1 (Fin x1) (Fin y1) z1, Point i2 (Fin x2) (Fin y2) z2,
                       Point i3 (Fin x3) (Fin y3) z3]"
    and "x1*(y3-y2)+x2*(y1-y3)+x3*(y2-y1) \<noteq> 0"
    and "0 \<le> (- (x*(y3-y1)+x1*(y-y3)+x3*(y1-y))) / (x1*(y3-y2)+x2*(y1-y3)+x3*(y2-y1))"
    and "0 \<le> (x*(y2-y1)+x1*(y-y2)+x2*(y1-y)) / (x1*(y3-y2)+x2*(y1-y3)+x3*(y2-y1))"
    and "(- (x*(y3-y1)+x1*(y-y3)+x3*(y1-y))) / (x1*(y3-y2)+x2*(y1-y3)+x3*(y2-y1))
         + (x*(y2-y1)+x1*(y-y2)+x2*(y1-y)) / (x1*(y3-y2)+x2*(y1-y3)+x3*(y2-y1)) \<le> 1"
  shows "containsPoint t (Point i (Fin x) (Fin y) z)"
  using assms(3-) by (simp add: containsPoint_def isPointInTriangle_def barycentric_Fin [OF assms(1,2)])

lemma root_contains_click1:
  assumes "points t = [q1, q2, q3]"
  shows "containsPoint t click1"
  unfolding click1_def
  by (rule containsPoint_Fin [OF assms [unfolded q1_def q2_def q3_def]])
    (use a0_pos in \<open>simp_all add: field_simps\<close>)

lemma T1_contains:
  assumes "points t = [q1, q2, click1]"
  shows "containsPoint t click2" "containsPoint t twin"
  unfolding click2_def twin_def
  by (rule containsPoint_Fin [OF assms [unfolded q1_def q2_def click1_def]],
      use a0_pos in \<open>simp_all add: field_simps\<close>)+


definition T0 :: triangle where
  "T0 = \<lparr>points = [q1, q2, q3], neighbors = [None, None, None], search = None\<rparr>"

definition mesh1 :: "triangle list" where
  "mesh1 = [T0,
     \<lparr>points = [q1, q2, click1], neighbors = [None, Some 2, Some 3], search = None\<rparr>,
     \<lparr>points = [click1, q2, q3], neighbors = [Some 1, None, Some 3], search = None\<rparr>,
     \<lparr>points = [q1, click1, q3], neighbors = [Some 1, Some 2, None], search = None\<rparr>]"

definition mesh2 :: "triangle list" where
  "mesh2 = [T0,
     \<lparr>points = [q1, q2, click1], neighbors = [None, Some 2, Some 3], search = None\<rparr>,
     \<lparr>points = [click1, q2, q3], neighbors = [Some 5, None, Some 3], search = None\<rparr>,
     \<lparr>points = [q1, click1, q3], neighbors = [Some 6, Some 2, None], search = None\<rparr>,
     \<lparr>points = [q1, q2, click2], neighbors = [None, Some 5, Some 6], search = None\<rparr>,
     \<lparr>points = [click2, q2, click1], neighbors = [Some 4, Some 2, Some 6], search = None\<rparr>,
     \<lparr>points = [q1, click2, click1], neighbors = [Some 4, Some 5, Some 3], search = None\<rparr>]"

lemma page_points: "point1 page = q1" "point2 page = q2" "point3 page = q3"
proof -
  have "cells page = [Triangle [point1 page, point2 page, point3 page] [None, None, None]]"
    by (simp add: page_def Delaunay_def Let_def)
  then show "point1 page = q1" "point2 page = q2" "point3 page = q3"
    by (simp_all add: page_cells Triangle_def)
qed

lemma page_cells': "cells page = [T0]"
  by (simp add: page_cells T0_def Triangle_def)

lemma link1: "splitTriangle_link [T0] 0 click1 = mesh1"
  by (simp add: splitTriangle_link_def Let_def T0_def mesh1_def Triangle_def set_neighbor_def
      replaceNeighbor_def cong: let_weak_cong)

lemma link2: "splitTriangle_link mesh1 1 click2 = mesh2"
  by (simp add: splitTriangle_link_def Let_def mesh1_def mesh2_def Triangle_def set_neighbor_def
      replaceNeighbor_def nth_append cong: let_weak_cong)

lemma repair1:
  "findAndFixViolatedTriangles mesh1 1 = Some (Returns mesh1)"
  "findAndFixViolatedTriangles mesh1 2 = Some (Returns mesh1)"
  "findAndFixViolatedTriangles mesh1 3 = Some (Returns mesh1)"
proof -
  have p: "points (mesh1 ! 1) = [q1, q2, click1]" "points (mesh1 ! 2) = [click1, q2, q3]"
    "points (mesh1 ! 3) = [q1, click1, q3]"
    by (simp_all add: mesh1_def)
  note o = T1_outside [OF p(1)] T2_outside [OF p(2)] T3_outside [OF p(3)]
  show "findAndFixViolatedTriangles mesh1 1 = Some (Returns mesh1)"
    by (rule findAndFix_settled, simp add: mesh1_def, rule investigate_outside)
       (use o in \<open>auto simp: mesh1_def\<close>)
  show "findAndFixViolatedTriangles mesh1 2 = Some (Returns mesh1)"
    by (rule findAndFix_settled, simp add: mesh1_def, rule investigate_outside)
       (use o in \<open>auto simp: mesh1_def\<close>)
  show "findAndFixViolatedTriangles mesh1 3 = Some (Returns mesh1)"
    by (rule findAndFix_settled, simp add: mesh1_def, rule investigate_outside)
       (use o in \<open>auto simp: mesh1_def\<close>)
qed


definition mesh2t :: "triangle list" where
  "mesh2t = [T0,
     \<lparr>points = [q1, q2, click1], neighbors = [None, Some 2, Some 3], search = None\<rparr>,
     \<lparr>points = [click1, q2, q3], neighbors = [Some 5, None, Some 3], search = None\<rparr>,
     \<lparr>points = [q1, click1, q3], neighbors = [Some 6, Some 2, None], search = None\<rparr>,
     \<lparr>points = [q1, q2, twin], neighbors = [None, Some 5, Some 6], search = None\<rparr>,
     \<lparr>points = [twin, q2, click1], neighbors = [Some 4, Some 2, Some 6], search = None\<rparr>,
     \<lparr>points = [q1, twin, click1], neighbors = [Some 4, Some 5, Some 3], search = None\<rparr>]"

lemma link2t: "splitTriangle_link mesh1 1 twin = mesh2t"
  by (simp add: splitTriangle_link_def Let_def mesh1_def mesh2t_def Triangle_def set_neighbor_def
      replaceNeighbor_def nth_append cong: let_weak_cong)

lemma repair2:
  "findAndFixViolatedTriangles mesh2 4 = Some (Returns mesh2)"
  "findAndFixViolatedTriangles mesh2 5 = Some (Returns mesh2)"
  "findAndFixViolatedTriangles mesh2 6 = Some (Returns mesh2)"
proof -
  have p: "points (mesh2 ! 4) = [q1, q2, click2]" "points (mesh2 ! 5) = [click2, q2, click1]"
    "points (mesh2 ! 6) = [q1, click2, click1]"
    by (simp_all add: mesh2_def)
  note o = T4_outside [OF p(1)] T5_outside [OF p(2)] T6_outside [OF p(3)]
  show "findAndFixViolatedTriangles mesh2 4 = Some (Returns mesh2)"
    by (rule findAndFix_settled, simp add: mesh2_def, rule investigate_outside)
       (use o in \<open>auto simp: mesh2_def\<close>)
  show "findAndFixViolatedTriangles mesh2 5 = Some (Returns mesh2)"
    by (rule findAndFix_settled, simp add: mesh2_def, rule investigate_outside)
       (use o in \<open>auto simp: mesh2_def\<close>)
  show "findAndFixViolatedTriangles mesh2 6 = Some (Returns mesh2)"
    by (rule findAndFix_settled, simp add: mesh2_def, rule investigate_outside)
       (use o in \<open>auto simp: mesh2_def T0_def\<close>)
qed

lemma repair2t:
  "findAndFixViolatedTriangles mesh2t 4 = Some (Returns mesh2t)"
  "findAndFixViolatedTriangles mesh2t 5 = Some (Returns mesh2t)"
  "findAndFixViolatedTriangles mesh2t 6 = Some (Returns mesh2t)"
proof -
  have p: "points (mesh2t ! 4) = [q1, q2, twin]" "points (mesh2t ! 5) = [twin, q2, click1]"
    "points (mesh2t ! 6) = [q1, twin, click1]"
    by (simp_all add: mesh2t_def)
  note o = T4t_outside [OF p(1)] T5t_outside [OF p(2)] T6t_outside [OF p(3)]
  show "findAndFixViolatedTriangles mesh2t 4 = Some (Returns mesh2t)"
    by (rule findAndFix_settled, simp add: mesh2t_def, rule investigate_outside)
       (use o in \<open>auto simp: mesh2t_def\<close>)
  show "findAndFixViolatedTriangles mesh2t 5 = Some (Returns mesh2t)"
    by (rule findAndFix_settled, simp add: mesh2t_def, rule investigate_outside)
       (use o in \<open>auto simp: mesh2t_def\<close>)
  show "findAndFixViolatedTriangles mesh2t 6 = Some (Returns mesh2t)"
    by (rule findAndFix_settled, simp add: mesh2t_def, rule investigate_outside)
       (use o in \<open>auto simp: mesh2t_def T0_def\<close>)
qed

lemma split_page:
  "splitTriangle [T0] 0 click1 = Some (Returns (1, mesh1))"
  "splitTriangle mesh1 1 click2 = Some (Returns (4, mesh2))"
  "splitTriangle mesh1 1 twin = Some (Returns (4, mesh2t))"
proof -
  have len: "length [T0] = 1" "length mesh1 = 4" by (simp_all add: mesh1_def)
  have n: "(1::nat) + 1 = 2" "(1::nat) + 2 = 3" "(4::nat) + 1 = 5" "(4::nat) + 2 = 6" by simp_all
  show "splitTriangle [T0] 0 click1 = Some (Returns (1, mesh1))"
    by (simp only: splitTriangle_def Let_def len n link1 repair1 seq_def option.case outcome.case)
  show "splitTriangle mesh1 1 click2 = Some (Returns (4, mesh2))"
    by (simp only: splitTriangle_def Let_def len n link2 repair2 seq_def option.case outcome.case)
  show "splitTriangle mesh1 1 twin = Some (Returns (4, mesh2t))"
    by (simp only: splitTriangle_def Let_def len n link2t repair2t seq_def option.case outcome.case)
qed

lemma find_page:
  "findContainingTriangle 0 (Some 0) click1 [T0] = Some (Returns (Some 0, [T0]))"
  "findContainingTriangle 1 (Some 1) click2 mesh1 = Some (Returns (Some 1, mesh1))"
  "findContainingTriangle 1 (Some 1) twin mesh1 = Some (Returns (Some 1, mesh1))"
proof -
  have p: "points (mesh1 ! 1) = [q1, q2, click1]" "search (mesh1 ! 1) \<noteq> Some 1"
    by (simp_all add: mesh1_def)
  show "findContainingTriangle 0 (Some 0) click1 [T0] = Some (Returns (Some 0, [T0]))"
    by (rule find_first) (simp_all add: T0_def root_contains_click1)
  show "findContainingTriangle 1 (Some 1) click2 mesh1 = Some (Returns (Some 1, mesh1))"
    by (rule find_first [OF p(2) T1_contains(1) [OF p(1)]])
  show "findContainingTriangle 1 (Some 1) twin mesh1 = Some (Returns (Some 1, mesh1))"
    by (rule find_first [OF p(2) T1_contains(2) [OF p(1)]])
qed

lemma insert_step:
  assumes "d_search st = k" "d_root st = r" "cells st = cs0"
    and "findContainingTriangle k (Some r) p cs0 = Some (Returns (Some t, cs))"
    and "splitTriangle cs t p = Some (Returns (t1, cs'))"
  shows "insert_points st (p # rest) =
           insert_points (st\<lparr>d_search := k + 1, cells := cs', d_root := t1\<rparr>) rest"
  using assms by (simp add: Let_def seq_def)

lemma page_fields: "d_search page = 0" "d_root page = 0" "console page = []"
  by (simp_all add: page_def Delaunay_def Let_def)

definition page1 :: delaunay where
  "page1 = page\<lparr>d_search := 1, cells := mesh1, d_root := 1\<rparr>"

definition page2 :: delaunay where
  "page2 = page\<lparr>d_search := 2, cells := mesh2, d_root := 4\<rparr>"

definition page2t :: delaunay where
  "page2t = page\<lparr>d_search := 2, cells := mesh2t, d_root := 4\<rparr>"

lemma insert_click1: "insert_points page (click1 # rest) = insert_points page1 rest"
proof -
  have "insert_points page (click1 # rest)
      = insert_points (page\<lparr>d_search := 0 + 1, cells := mesh1, d_root := 1\<rparr>) rest"
    by (rule insert_step [OF page_fields(1,2) page_cells' find_page(1) split_page(1)])
  moreover have "page\<lparr>d_search := 0 + 1, cells := mesh1, d_root := 1\<rparr> = page1"
    by (simp add: page1_def)
  ultimately show ?thesis by (simp only:)
qed

lemma insert_click2: "insert_points page1 (click2 # rest) = insert_points page2 rest"
proof -
  have f: "d_search page1 = 1" "d_root page1 = 1" "cells page1 = mesh1"
    by (simp_all add: page1_def)
  have "insert_points page1 (click2 # rest)
      = insert_points (page1\<lparr>d_search := 1 + 1, cells := mesh2, d_root := 4\<rparr>) rest"
    by (rule insert_step [OF f find_page(2) split_page(2)])
  moreover have "page1\<lparr>d_search := 1 + 1, cells := mesh2, d_root := 4\<rparr> = page2"
    by (simp add: page1_def page2_def)
  ultimately show ?thesis by (simp only:)
qed

lemma insert_twin: "insert_points page1 (twin # rest) = insert_points page2t rest"
proof -
  have f: "d_search page1 = 1" "d_root page1 = 1" "cells page1 = mesh1"
    by (simp_all add: page1_def)
  have "insert_points page1 (twin # rest)
      = insert_points (page1\<lparr>d_search := 1 + 1, cells := mesh2t, d_root := 4\<rparr>) rest"
    by (rule insert_step [OF f find_page(3) split_page(3)])
  moreover have "page1\<lparr>d_search := 1 + 1, cells := mesh2t, d_root := 4\<rparr> = page2t"
    by (simp add: page1_def page2t_def)
  ultimately show ?thesis by (simp only:)
qed

lemma T2_click2_inside:
  assumes "points t = [click1, q2, q3]"
  shows "strictlyLessThan (distanceToCircumcenter t click2) (getRadius t)"
proof -
  have D: "cc_den 320 240 320 2040 (320 + a0) (- 160) = - 3600 * a0"
    by (simp add: cc_den_def algebra_simps)
  have D0: "cc_den 320 240 320 2040 (320 + a0) (- 160) \<noteq> 0"
    using a0_pos by (simp add: D)
  have U: "cc_unum 320 240 320 2040 (320 + a0) (- 160) = (320 + 49 / 54 * a0) * (- 3600 * a0)"
    by (simp add: cc_unum_def algebra_simps a0_sq a0_sq')
  have V: "cc_vnum 320 240 320 2040 (320 + a0) (- 160) = 1140 * (- 3600 * a0)"
    by (simp add: cc_vnum_def algebra_simps a0_sq a0_sq')
  have u: "320 + 49 / 54 * a0 = cc_unum 320 240 320 2040 (320 + a0) (- 160) / cc_den 320 240 320 2040 (320 + a0) (- 160)"
    using a0_pos by (simp add: U D)
  have v: "1140 = cc_vnum 320 240 320 2040 (320 + a0) (- 160) / cc_den 320 240 320 2040 (320 + a0) (- 160)"
    using a0_pos by (simp add: V D)
  have pts: "points t = [Point (Caller 1) (Fin 320) (Fin 240) (Fin 0), Point Bounding2 (Fin 320) (Fin 2040) (Fin 0), Point Bounding3 (Fin (320 + a0)) (Fin (- 160)) (Fin 0)]"
    using assms by (simp add: click1_def q2_def q3_def)
  have sq: "(49 / 54 * a0) * (49 / 54 * a0) = 24010000 / 27"
    using a0_sq by (simp add: algebra_simps)
  have "distanceToCircumcenter t click2
          = Fin ((320 - (320 + 49 / 54 * a0)) * (320 - (320 + 49 / 54 * a0)) + (300 - 1140) * (300 - 1140))"
    unfolding click2_def by (rule circle_values(1) [OF pts D0 u v])
  moreover have "getRadius t
          = Fin ((320 - (320 + 49 / 54 * a0)) * (320 - (320 + 49 / 54 * a0)) + (240 - 1140) * (240 - 1140))"
    by (rule circle_values(2) [OF pts D0 u v])
  ultimately show ?thesis
    using sq by (simp add: strictlyLessThan_Fin)
qed


text \<open>
  C1. The claim says that after every \<open>insert\<close> no inserted point lies inside the
  circumcircle of a reachable triangle it is not a forming point of. After inserting
  \<open>(320, 240, 0)\<close> and \<open>(320, 300, 0)\<close> into the triangulation of the page, \<open>insert\<close> has
  returned, the triangle 2 (forming points \<open>(320, 240)\<close>, \<open>(320, 2040)\<close>, \<open>(320 + a0, -160)\<close>)
  is reachable from the root over the triangle 5, the second point is not one of its
  forming points, and the tolerance comparison \<open>strictlyLessThan(distance, radius)\<close> of the
  repair holds for it: the point lies inside the circumcircle. The second point lies on
  the edge between the triangles 1 and 2; the triangle 5 that the split creates along this
  edge is degenerate, its circumcenter is not finite, and no comparison involving it
  triggers a flip.
\<close>

theorem insert_on_edge_leaves_point_in_circumcircle:
  "case insert_points (Delaunay (Fin 0) (Fin 640) (Fin 0) (Fin 480))
          [Point (Caller 1) (Fin 320) (Fin 240) (Fin 0), Point (Caller 2) (Fin 320) (Fin 300) (Fin 0)] of
     Some (Returns st) \<Rightarrow>
       neighbors (cells st ! d_root st) ! 1 = Some 5
       \<and> neighbors (cells st ! 5) ! 1 = Some 2
       \<and> indexOf (same_point (Point (Caller 2) (Fin 320) (Fin 300) (Fin 0))) (points (cells st ! 2)) = None
       \<and> strictlyLessThan
            (distanceToCircumcenter (cells st ! 2) (Point (Caller 2) (Fin 320) (Fin 300) (Fin 0)))
            (getRadius (cells st ! 2))
   | _ \<Rightarrow> False"
proof -
  have r: "insert_points page [click1, click2] = Some (Returns page2)"
    by (simp only: insert_click1 insert_click2 insert_points.simps(1))
  have p: "points (cells page2 ! 2) = [click1, q2, q3]"
    by (simp add: page2_def mesh2_def)
  have "indexOf (same_point click2) (points (cells page2 ! 2)) = None"
    by (simp add: p same_point_def click1_def click2_def q2_def q3_def Point_def)
  moreover have "neighbors (cells page2 ! d_root page2) ! 1 = Some 5"
    "neighbors (cells page2 ! 5) ! 1 = Some 2"
    by (simp_all add: page2_def mesh2_def)
  ultimately show ?thesis
    unfolding page_def [symmetric] click1_def [symmetric] click2_def [symmetric] r
    using T2_click2_inside [OF p] by simp
qed

section \<open>What the search and the repair leave unchanged\<close>

text \<open>
  \<open>held q\<close> are the references that the queue \<open>q\<close> holds. The operations of the queue
  never invent a reference.
\<close>

definition held :: "'a Queue \<Rightarrow> 'a set" where
  "held q = {x. Some x \<in> set (elements q)}"

lemma js_read_in: "js_read xs i = Some x \<Longrightarrow> Some x \<in> set xs"
  by (auto simp: js_read_def split: if_splits) (metis nth_mem)

lemma js_write_in: "Some x \<in> set (js_write xs i v) \<Longrightarrow> Some x \<in> set xs \<or> v = Some x"
  by (auto simp: js_write_def split: if_splits dest: set_update_subset_insert [THEN subsetD])

lemma held_swap: "held (swap_q q a b) \<subseteq> held q"
  by (auto simp: held_def swap_q_def Let_def dest!: js_write_in js_read_in)

lemma compare_swap [simp]: "compare (swap_q q a b) = compare q"
  by (simp add: swap_q_def Let_def)

lemma held_cascadeUp: "held (cascadeUp q i) \<subseteq> held q"
proof (induction q i rule: cascadeUp.induct)
  case (1 q index)
  show ?case
  proof (cases "1 < index \<and> less_q q index (parentIndex index)")
    case True
    then have "cascadeUp q index = cascadeUp (swap_q q index (parentIndex index)) (parentIndex index)"
      by (subst cascadeUp.simps) (simp add: Let_def)
    moreover have "held (cascadeUp (swap_q q index (parentIndex index)) (parentIndex index))
        \<subseteq> held (swap_q q index (parentIndex index))"
      using True by (intro "1.IH") auto
    ultimately show ?thesis using held_swap by fastforce
  next
    case False
    then have "cascadeUp q index = q"
      by (subst cascadeUp.simps) (auto simp: Let_def)
    then show ?thesis by simp
  qed
qed

lemma held_cascadeDown:
  assumes "cascadeDown q i = Some q'"
  shows "held q' \<subseteq> held q"
proof (rule cascadeDown.raw_induct
    [where P = "\<lambda>q i q'. held q' \<subseteq> held q", OF _ assms], goal_cases)
  case (1 f q index q')
  have "q' = q \<or> (\<exists>m. f (swap_q q m index) m = Some q')"
    using 1(2) by (auto simp: Let_def split: option.splits if_splits)
  then show ?case
  proof
    assume "q' = q"
    then show ?thesis by simp
  next
    assume "\<exists>m. f (swap_q q m index) m = Some q'"
    then obtain m where "f (swap_q q m index) m = Some q'" by blast
    from 1(1) [OF this] held_swap [of q m index] show ?thesis by blast
  qed
qed

lemma held_insert_q: "held (insert_q q e) \<subseteq> insert e (held q)"
proof -
  have "held (q\<lparr>elements := elements q @ [Some e]\<rparr>) \<subseteq> insert e (held q)"
    by (auto simp: held_def)
  then show ?thesis
    unfolding insert_q_def Let_def using held_cascadeUp by fastforce
qed

lemma held_pop_q:
  assumes "pop_q q = Some (v, q')"
  shows "held q' \<subseteq> held q" and "v = Some x \<Longrightarrow> x \<in> held q"
proof -
  obtain lst els where p: "js_pop (elements q) = (lst, els)" by (cases "js_pop (elements q)")
  have sub: "set els \<subseteq> set (elements q)" "lst = Some y \<Longrightarrow> Some y \<in> set (elements q)" for y
    using p by (auto simp: js_pop_def split: if_splits dest: in_set_butlastD) (metis last_in_set)
  from assms p have down: "cascadeDown (q\<lparr>elements := js_write els 1 lst\<rparr>) 1 = Some q'"
      and v: "v = js_read (elements q) 1"
    by (auto simp: pop_q_def Let_def split: option.splits)
  have "held (q\<lparr>elements := js_write els 1 lst\<rparr>) \<subseteq> held q"
    using sub by (auto simp: held_def dest!: js_write_in)
  with held_cascadeDown [OF down] show "held q' \<subseteq> held q" by blast
  show "v = Some x \<Longrightarrow> x \<in> held q"
    using v by (auto simp: held_def dest: js_read_in)
qed


text \<open>
  \<open>restamped k cs cs'\<close>: the store \<open>cs'\<close> differs from \<open>cs\<close> at most in that some
  triangles carry the stamp \<open>k\<close>. \<open>wf_cells\<close>: every triangle has three forming points
  and three neighbour slots, and every reference in a slot is an object of the store.
\<close>

definition restamped :: "nat \<Rightarrow> triangle list \<Rightarrow> triangle list \<Rightarrow> bool" where
  "restamped k cs cs' =
     (length cs' = length cs \<and>
      (\<forall>i<length cs. points (cs' ! i) = points (cs ! i) \<and> neighbors (cs' ! i) = neighbors (cs ! i) \<and>
         (search (cs' ! i) = search (cs ! i) \<or> search (cs' ! i) = Some k)))"

definition wf_cells :: "triangle list \<Rightarrow> bool" where
  "wf_cells cs =
     (\<forall>i<length cs. length (points (cs ! i)) = 3 \<and> length (neighbors (cs ! i)) = 3 \<and>
        (\<forall>n. Some n \<in> set (neighbors (cs ! i)) \<longrightarrow> n < length cs))"

definition stamps_below :: "nat \<Rightarrow> triangle list \<Rightarrow> bool" where
  "stamps_below k cs = (\<forall>i<length cs. \<forall>j. search (cs ! i) = Some j \<longrightarrow> j < k)"

lemma restamped_refl: "restamped k cs cs"
  by (simp add: restamped_def)

lemma restamped_trans: "restamped k cs cs' \<Longrightarrow> restamped k cs' cs'' \<Longrightarrow> restamped k cs cs''"
  by (fastforce simp: restamped_def)

lemma restamped_length: "restamped k cs cs' \<Longrightarrow> length cs' = length cs"
  by (simp add: restamped_def)

lemma restamped_wf: "restamped k cs cs' \<Longrightarrow> wf_cells cs \<Longrightarrow> wf_cells cs'"
  by (simp add: restamped_def wf_cells_def)

lemma restamped_stamps: "restamped k cs cs' \<Longrightarrow> stamps_below k' cs \<Longrightarrow> k < k' \<Longrightarrow> stamps_below k' cs'"
  unfolding restamped_def stamps_below_def by (metis option.inject)

lemma restamped_stamp: "restamped k cs (stamp cs t k)"
  by (cases "t < length cs") (auto simp: restamped_def stamp_def nth_list_update)

lemma expand_frame:
  "restamped k cs (fst (expand k nb (cs, q)))"
  "held (snd (expand k nb (cs, q))) \<subseteq> held q \<union> {n. nb = Some n}"
  using held_insert_q [of q]
  by (auto simp: expand_def restamped_refl restamped_stamp split: option.splits)

lemma fold_expand_frame:
  "restamped k cs (fst (fold (expand k) nbs (cs, q)))
   \<and> held (snd (fold (expand k) nbs (cs, q))) \<subseteq> held q \<union> {n. Some n \<in> set nbs}"
proof (induction nbs arbitrary: cs q)
  case Nil
  then show ?case by (simp add: restamped_refl)
next
  case (Cons nb nbs)
  obtain cs1 qr where e: "expand k nb (cs, q) = (cs1, qr)" by (cases "expand k nb (cs, q)")
  from expand_frame [where k=k and cs=cs and nb=nb and q=q] e
  have 1: "restamped k cs cs1" "held qr \<subseteq> held q \<union> {n. nb = Some n}" by simp_all
  from Cons.IH [where cs=cs1 and q=qr]
  have 2: "restamped k cs1 (fst (fold (expand k) nbs (cs1, qr)))"
    "held (snd (fold (expand k) nbs (cs1, qr))) \<subseteq> held qr \<union> {n. Some n \<in> set nbs}" by simp_all
  show ?case
    using 1 2 restamped_trans by (auto simp: e)
qed


lemma find_loop_frame:
  assumes "findContainingTriangle_loop k p cs q = Some r"
  shows "\<forall>found cs'. r = Returns (found, cs') \<longrightarrow>
           restamped k cs cs' \<and>
           (wf_cells cs \<longrightarrow> held q \<subseteq> {..<length cs} \<longrightarrow> (\<forall>t. found = Some t \<longrightarrow> t < length cs))"
proof (rule findContainingTriangle_loop.raw_induct
    [where P = "\<lambda>k p cs q r. \<forall>found cs'. r = Returns (found, cs') \<longrightarrow>
           restamped k cs cs' \<and>
           (wf_cells cs \<longrightarrow> held q \<subseteq> {..<length cs} \<longrightarrow> (\<forall>t. found = Some t \<longrightarrow> t < length cs))",
     OF _ assms], goal_cases)
  case (1 f k p cs q r)
  show ?case
  proof (intro allI impI)
    fix found cs'
    assume r: "r = Returns (found, cs')"
    show "restamped k cs cs' \<and>
           (wf_cells cs \<longrightarrow> held q \<subseteq> {..<length cs} \<longrightarrow> (\<forall>t. found = Some t \<longrightarrow> t < length cs))"
    proof (cases "isEmpty q")
      case True
      with 1(2) r show ?thesis by (simp add: restamped_refl)
    next
      case False
      with 1(2) r obtain t qr where pop: "pop_q q = Some (Some t, qr)"
        by (auto split: option.splits)
      note h = held_pop_q [OF pop]
      show ?thesis
      proof (cases "containsPoint (cs ! t) p")
        case True
        with 1(2) r False pop have "found = Some t" "cs' = cs" by simp_all
        then show ?thesis using h(2) by (auto simp: restamped_refl)
      next
        case nc: False
        define s where "s = fold (expand k) (neighbors (cs ! t)) (cs, qr)"
        from 1(2) r False pop nc have "f k p (fst s) (snd s) = Some (Returns (found, cs'))"
          by (simp add: s_def Let_def)
        from 1(1) [OF this] have ih: "restamped k (fst s) cs'"
          "wf_cells (fst s) \<Longrightarrow> held (snd s) \<subseteq> {..<length (fst s)} \<Longrightarrow> found = Some u \<Longrightarrow> u < length (fst s)" for u
          by blast+
        from fold_expand_frame [of k cs "neighbors (cs ! t)" qr]
        have fr: "restamped k cs (fst s)"
          "held (snd s) \<subseteq> held qr \<union> {n. Some n \<in> set (neighbors (cs ! t))}"
          by (simp_all add: s_def)
        have "u < length cs" if wf: "wf_cells cs" and hq: "held q \<subseteq> {..<length cs}" and fu: "found = Some u" for u
        proof -
          have tv: "t < length cs" using h(2) hq by auto
          then have "{n. Some n \<in> set (neighbors (cs ! t))} \<subseteq> {..<length cs}"
            using wf by (auto simp: wf_cells_def)
          then have "held (snd s) \<subseteq> {..<length (fst s)}"
            using fr h(1) hq restamped_length [OF fr(1)] by auto
          from ih(2) [OF restamped_wf [OF fr(1) wf] this fu] show ?thesis
            using restamped_length [OF fr(1)] by simp
        qed
        then show ?thesis using restamped_trans [OF fr(1) ih(1)] by blast
      qed
    qed
  qed
qed

lemma find_frame:
  assumes "findContainingTriangle k rt p cs = Some (Returns (found, cs'))"
  shows "restamped k cs cs'"
    and "wf_cells cs \<Longrightarrow> (\<And>r. rt = Some r \<Longrightarrow> r < length cs) \<Longrightarrow> found = Some t \<Longrightarrow> t < length cs"
proof -
  show "restamped k cs cs'"
  proof (cases rt)
    case None
    with assms show ?thesis by (simp add: findContainingTriangle_def restamped_refl)
  next
    case (Some r)
    show ?thesis
    proof (cases "search (cs ! r) = Some k")
      case True
      with assms Some show ?thesis by (simp add: findContainingTriangle_def restamped_refl)
    next
      case False
      with assms Some have "findContainingTriangle_loop k p cs
          (insert_q (new_Queue (\<lambda>x y. compareTriangles p (cs ! x) (cs ! y))) r) = Some (Returns (found, cs'))"
        by (simp add: findContainingTriangle_def Let_def)
      from find_loop_frame [OF this] show ?thesis by blast
    qed
  qed
  show "t < length cs" if wf: "wf_cells cs" and rv: "\<And>r. rt = Some r \<Longrightarrow> r < length cs" and ft: "found = Some t"
  proof (cases rt)
    case None
    with assms ft show ?thesis by (simp add: findContainingTriangle_def)
  next
    case (Some r)
    show ?thesis
    proof (cases "search (cs ! r) = Some k")
      case True
      with assms Some ft show ?thesis by (simp add: findContainingTriangle_def)
    next
      case False
      with assms Some have l: "findContainingTriangle_loop k p cs
          (insert_q (new_Queue (\<lambda>x y. compareTriangles p (cs ! x) (cs ! y))) r) = Some (Returns (found, cs'))"
        by (simp add: findContainingTriangle_def Let_def)
      have "held (insert_q (new_Queue (\<lambda>x y. compareTriangles p (cs ! x) (cs ! y))) r) \<subseteq> {..<length cs}"
        using rv [OF Some] by (simp add: insert_q_first held_def)
      with find_loop_frame [OF l] wf ft show ?thesis by blast
    qed
  qed
qed


text \<open>The repair changes triangles in place; only the split adds objects to the store.\<close>

lemma length_set_neighbor [simp]: "length (set_neighbor cs t i n) = length cs"
  by (simp add: set_neighbor_def)

lemma length_replaceNeighbor [simp]: "length (replaceNeighbor cs tri old new) = length cs"
  by (simp add: replaceNeighbor_def split: option.splits)

lemma length_flip: "flip cs t1 t2 = Returns cs' \<Longrightarrow> length cs' = length cs"
  by (auto simp: flip_def Let_def split: option.splits)

lemma length_investigate:
  "investigateAndFixTriangle cs t n = Returns (b, cs') \<Longrightarrow> length cs' = length cs"
  by (auto simp: investigateAndFixTriangle_def length_flip split: if_splits outcome.splits)

lemma length_findAndFix_from:
  assumes "findAndFixViolatedTriangles_from cs t i = Some r"
  shows "\<forall>cs'. r = Returns cs' \<longrightarrow> length cs' = length cs"
proof (rule findAndFixViolatedTriangles_from.raw_induct
    [where P = "\<lambda>cs t i r. \<forall>cs'. r = Returns cs' \<longrightarrow> length cs' = length cs", OF _ assms], goal_cases)
  case (1 f cs t i r)
  show ?case
  proof (intro allI impI)
    fix cs' assume r: "r = Returns cs'"
    show "length cs' = length cs"
    proof (cases "i < length (neighbors (cs ! t))")
      case False
      with 1(2) r show ?thesis by simp
    next
      case True
      show ?thesis
      proof (cases "neighbors (cs ! t) ! i")
        case None
        with 1(2) True r have "f cs t (i + 1) = Some (Returns cs')" by simp
        from 1(1) [OF this] show ?thesis by simp
      next
        case (Some n)
        show ?thesis
        proof (cases "investigateAndFixTriangle cs t n")
          case Throws
          with 1(2) True Some r show ?thesis by simp
        next
          case (Returns res)
          obtain b c1 where res: "res = (b, c1)" by (cases res)
          note l1 = length_investigate [OF Returns [unfolded res]]
          show ?thesis
          proof (cases b)
            case False
            with 1(2) True Some r Returns res have "f c1 t (i + 1) = Some (Returns cs')" by simp
            from 1(1) [OF this] l1 show ?thesis by simp
          next
            case b: True
            with 1(2) True Some r Returns res
            have "Option.bind (f c1 n 0)
                      (\<lambda>r. case r of Throws \<Rightarrow> Some Throws | Returns cs' \<Rightarrow> f cs' t 0)
                   = Some (Returns cs')" by simp
            then obtain c2 where a: "f c1 n 0 = Some (Returns c2)" and b: "f c2 t 0 = Some (Returns cs')"
              by (cases "f c1 n 0") (auto split: outcome.splits)
            from 1(1) [OF a] 1(1) [OF b] l1 show ?thesis by simp
          qed
        qed
      qed
    qed
  qed
qed

lemma seq_Returns:
  assumes "seq m f = Some (Returns x)"
  obtains a where "m = Some (Returns a)" "f a = Some (Returns x)"
  using assms by (auto simp: seq_def split: option.splits outcome.splits)

lemma length_link: "length (splitTriangle_link cs t p) = length cs + 3"
  by (simp add: splitTriangle_link_def Let_def)

lemma splitTriangle_lengths:
  assumes "splitTriangle cs t p = Some (Returns (r, cs'))"
  shows "r = length cs" "length cs' = length cs + 3"
proof -
  from assms have "seq (findAndFixViolatedTriangles (splitTriangle_link cs t p) (length cs)) (\<lambda>c.
         seq (findAndFixViolatedTriangles c (length cs + 1)) (\<lambda>c.
         seq (findAndFixViolatedTriangles c (length cs + 2)) (\<lambda>c.
         Some (Returns (length cs, c))))) = Some (Returns (r, cs'))"
    by (simp only: splitTriangle_def Let_def)
  then obtain c1 c2 c3 where
    1: "findAndFixViolatedTriangles_from (splitTriangle_link cs t p) (length cs) 0 = Some (Returns c1)" and
    2: "findAndFixViolatedTriangles_from c1 (length cs + 1) 0 = Some (Returns c2)" and
    3: "findAndFixViolatedTriangles_from c2 (length cs + 2) 0 = Some (Returns c3)" and
    r: "Some (Returns (length cs, c3)) = Some (Returns (r, cs'))"
    unfolding findAndFixViolatedTriangles_def by (elim seq_Returns) 
  from r have r: "r = length cs" and c3: "c3 = cs'" by simp_all
  show "r = length cs" by fact
  from length_findAndFix_from [OF 1] length_findAndFix_from [OF 2] length_findAndFix_from [OF 3] c3
  show "length cs' = length cs + 3" by (simp add: length_link)
qed

text \<open>
  C8, the claim as stated fails: after inserting \<open>(320, 240, 0)\<close> and then the point
  \<open>(320, 240, 1)\<close>, which differs from the first in its z coordinate only, \<open>insert\<close> has
  returned normally, nothing was reported, the store has grown from four to seven
  triangles, and the new root has the second point as a forming point.
\<close>

theorem insert_above_existing_point_counterexample:
  "case insert_points (Delaunay (Fin 0) (Fin 640) (Fin 0) (Fin 480))
          [Point (Caller 1) (Fin 320) (Fin 240) (Fin 0), Point (Caller 2) (Fin 320) (Fin 240) (Fin 1)] of
     Some (Returns st) \<Rightarrow>
       console st = [] \<and> length (cells st) = 7
       \<and> points (cells st ! d_root st)
           = [point1 st, point2 st, Point (Caller 2) (Fin 320) (Fin 240) (Fin 1)]
   | _ \<Rightarrow> False"
proof -
  have r: "insert_points page [click1, twin] = Some (Returns page2t)"
    by (simp only: insert_click1 insert_twin insert_points.simps(1))
  have "point1 page = q1" "point2 page = q2"
    using page_points by simp_all
  then show ?thesis
    unfolding page_def [symmetric] click1_def [symmetric] twin_def [symmetric] r
    by (simp add: page2t_def mesh2t_def page_fields)
qed

text \<open>
  C8, amended: \<open>insert\<close> has no check of the planar projection and no error for it.
  Whatever the coordinates of the point and of the forming points already in the mesh:
  when the search returns a triangle for the point and \<open>insert\<close> returns, the triangle
  was split. The store has three more triangles, the first of them is the new root,
  nothing was reported, and the search counter advanced by one. The theorem is used below
  at the point \<open>(320, 240, 1)\<close>, inserted above the forming point \<open>(320, 240, 0)\<close>.
\<close>

theorem insert_splits_without_a_check:
  assumes "findContainingTriangle (d_search st) (Some (d_root st)) p (cells st)
             = Some (Returns (Some t, cs))"
    and "insert_points st [p] = Some (Returns st')"
  shows "length (cells st') = length (cells st) + 3 \<and> d_root st' = length (cells st)
         \<and> console st' = console st \<and> d_search st' = d_search st + 1"
proof -
  from assms obtain r cs' where s: "splitTriangle cs t p = Some (Returns (r, cs'))"
    and st': "st' = st\<lparr>d_search := d_search st + 1, cells := cs', d_root := r\<rparr>"
    by (auto simp: Let_def seq_def split: option.splits outcome.splits)
  from find_frame(1) [OF assms(1)] have "length cs = length (cells st)"
    by (rule restamped_length)
  with splitTriangle_lengths [OF s] st' show ?thesis by simp
qed

theorem insert_splits_without_a_check_witness:
  "findContainingTriangle (d_search page1) (Some (d_root page1)) twin (cells page1)
     = Some (Returns (Some 1, mesh1))
   \<and> insert_points page1 [twin] = Some (Returns page2t)
   \<and> length (cells page2t) = length (cells page1) + 3 \<and> d_root page2t = length (cells page1)
   \<and> console page2t = console page1 \<and> d_search page2t = d_search page1 + 1"
proof -
  have f: "d_search page1 = 1" "d_root page1 = 1" "cells page1 = mesh1"
    by (simp_all add: page1_def)
  have a: "findContainingTriangle (d_search page1) (Some (d_root page1)) twin (cells page1)
     = Some (Returns (Some 1, mesh1))"
    by (simp only: f find_page(3))
  have b: "insert_points page1 [twin] = Some (Returns page2t)"
    by (simp only: insert_twin insert_points.simps(1))
  from insert_splits_without_a_check [OF a b] a b show ?thesis by simp
qed

section \<open>The invariant of the store\<close>

text \<open>
  \<open>sound k cs\<close>: every triangle of the store has three forming points and three
  neighbour slots, every reference in a slot is an object of the store, and every stamp
  is below the search counter \<open>k\<close>. \<open>ready\<close> adds that the root is an object of the
  store. The constructor establishes it; \<open>insert\<close> and \<open>getTriangles\<close> keep it.
\<close>

definition ok :: "nat \<Rightarrow> nat \<Rightarrow> triangle \<Rightarrow> bool" where
  "ok k n c = (length (points c) = 3 \<and> length (neighbors c) = 3
               \<and> (\<forall>m. Some m \<in> set (neighbors c) \<longrightarrow> m < n)
               \<and> (\<forall>j. search c = Some j \<longrightarrow> j < k))"




























section \<open>The harvest\<close>


definition alike :: "nat \<Rightarrow> nat \<Rightarrow> delaunay \<Rightarrow> delaunay \<Rightarrow> bool" where
  "alike k k' st st' =
     (point1 st' = point1 st \<and> point2 st' = point2 st \<and> point3 st' = point3 st
      \<and> length (cells st') = length (cells st)
      \<and> (\<forall>i<length (cells st).
            points (cells st' ! i) = points (cells st ! i)
            \<and> neighbors (cells st' ! i) = neighbors (cells st ! i)
            \<and> (search (cells st' ! i) = Some k') = (search (cells st ! i) = Some k)))"


definition exposed :: "delaunay \<Rightarrow> nat \<Rightarrow> bool" where
  "exposed st t =
     (indexOf (same_point (point1 st)) (points (cells st ! t)) = None \<and>
      indexOf (same_point (point2 st)) (points (cells st ! t)) = None \<and>
      indexOf (same_point (point3 st)) (points (cells st ! t)) = None)"








lemma addTriangle_None [simp]: "addTriangle st k ts None = (False, st, ts)"
  by (simp add: addTriangle_def)




lemma alike_exposed: "alike k k' st st' \<Longrightarrow> t < length (cells st) \<Longrightarrow> exposed st' t = exposed st t"
  by (simp add: alike_def exposed_def)



























end
